theory Spec2Isabelle
  imports Main
begin

section \<open>Python and NumPy helpers used by \<open>opt_serve.py\<close>\<close>

text \<open>
  Exceptions of the source are values. \<open>ValueError\<close> is what Python and NumPy raise
  (a \<open>range\<close> with step zero, \<open>str.split\<close> with an empty separator, arrays whose
  shapes do not fit), \<open>IndexError\<close> is an index out of range, and \<open>ExecutorError\<close>
  stands for anything raised inside the model (the flax module or its \<open>generate\<close>).
\<close>

datatype error = ValueError | IndexError | ExecutorError

definition ebind :: "error + 'a \<Rightarrow> ('a \<Rightarrow> error + 'b) \<Rightarrow> error + 'b" where
  "ebind m f = (case m of Inl e \<Rightarrow> Inl e | Inr x \<Rightarrow> f x)"

text \<open>
  A two-dimensional array is the list of its rows; the arrays of the source are
  rectangular and have one row per text of the request. \<open>shape1\<close> is \<open>a.shape[1]\<close>.
\<close>

definition shape1 :: "'a list list \<Rightarrow> nat" where
  "shape1 a = (case a of [] \<Rightarrow> 0 | r # _ \<Rightarrow> length r)"

text \<open>A slice bound of Python, clamped to the length \<open>n\<close>; negative bounds count from the end.\<close>

definition py_index :: "nat \<Rightarrow> int \<Rightarrow> nat" where
  "py_index n i = (if i < 0 then nat (int n + i) else min n (nat i))"

text \<open>\<open>xs[start:stop]\<close>, a bound \<open>None\<close> being an omitted one.\<close>

definition py_slice :: "'a list \<Rightarrow> int option \<Rightarrow> int option \<Rightarrow> 'a list" where
  "py_slice xs start stop =
     (let n = length xs;
          a = (case start of None \<Rightarrow> 0 | Some i \<Rightarrow> py_index n i);
          b = (case stop of None \<Rightarrow> n | Some j \<Rightarrow> py_index n j)
      in take (b - a) (drop a xs))"

text \<open>\<open>np.concatenate([a, b], axis=1)\<close>: the arrays must have the same number of rows.\<close>

definition concatenate1 :: "'a list list \<Rightarrow> 'a list list \<Rightarrow> error + 'a list list" where
  "concatenate1 a b = (if length a = length b then Inr (map2 (@) a b) else Inl ValueError)"

text \<open>\<open>range(0, stop, step)\<close> as a list.\<close>

definition py_range0 :: "int \<Rightarrow> int \<Rightarrow> error + int list" where
  "py_range0 stop step =
     (if step = 0 then Inl ValueError
      else if step < 0 \<or> stop \<le> 0 then Inr []
      else Inr (map (\<lambda>k. int k * step) [0 ..< nat ((stop + step - 1) div step)]))"

text \<open>
  A value that is a Python scalar or a one-dimensional array: the accumulators of the
  sliding window start as the scalars \<open>0.0\<close> and \<open>True\<close> and become arrays.
\<close>

datatype 'a nd = Scalar 'a | Vector "'a list"

text \<open>\<open>a += b\<close> where \<open>b\<close> is an array: a scalar \<open>a\<close> is rebound to \<open>a + b\<close>, an array
  \<open>a\<close> is updated in place, which needs \<open>b\<close> to broadcast to the shape of \<open>a\<close>.\<close>

definition np_iadd :: "('a \<Rightarrow> 'a \<Rightarrow> 'a) \<Rightarrow> 'a nd \<Rightarrow> 'a list \<Rightarrow> error + 'a nd" where
  "np_iadd f a b =
     (case a of
        Scalar x \<Rightarrow> Inr (Vector (map (f x) b))
      | Vector xs \<Rightarrow>
          if length b = length xs then Inr (Vector (map2 f xs b))
          else if length b = 1 then Inr (Vector (map (\<lambda>x. f x (hd b)) xs))
          else Inl ValueError)"

text \<open>\<open>np.logical_and(a, b)\<close> with \<open>a\<close> an array.\<close>

definition np_logical_and :: "bool list \<Rightarrow> bool nd \<Rightarrow> error + bool nd" where
  "np_logical_and a b =
     (case b of
        Scalar y \<Rightarrow> Inr (Vector (map (\<lambda>x. x \<and> y) a))
      | Vector ys \<Rightarrow>
          if length a = length ys then Inr (Vector (map2 (\<and>) a ys))
          else if length a = 1 then Inr (Vector (map (\<lambda>y. hd a \<and> y) ys))
          else if length ys = 1 then Inr (Vector (map (\<lambda>x. x \<and> hd ys) a))
          else Inl ValueError)"

subsection \<open>Strings\<close>

fun startswith :: "'a list \<Rightarrow> 'a list \<Rightarrow> bool" where
  "startswith [] t = True"
| "startswith (c # s) [] = False"
| "startswith (c # s) (d # t) = (c = d \<and> startswith s t)"

text \<open>\<open>t.find(s)\<close>: the index of the first occurrence of \<open>s\<close> in \<open>t\<close>.\<close>

fun find_sub :: "'a list \<Rightarrow> 'a list \<Rightarrow> nat option" where
  "find_sub s [] = (if s = [] then Some 0 else None)"
| "find_sub s (c # t) =
     (if startswith s (c # t) then Some 0 else map_option Suc (find_sub s t))"

text \<open>\<open>s in t\<close>.\<close>

definition py_in :: "'a list \<Rightarrow> 'a list \<Rightarrow> bool" where
  "py_in s t = (find_sub s t \<noteq> None)"

text \<open>\<open>t.split(s, maxsplit=1)[0]\<close>; an empty separator raises \<open>ValueError\<close>.\<close>

definition split_first :: "'a list \<Rightarrow> 'a list \<Rightarrow> error + 'a list" where
  "split_first s t =
     (if s = [] then Inl ValueError
      else Inr (case find_sub s t of None \<Rightarrow> t | Some p \<Rightarrow> take p t))"

section \<open>The server's environment\<close>

text \<open>The result of a tokenizer call with \<open>return_tensors="np"\<close>.\<close>

record encoding =
  input_ids :: "int list list"
  attention_mask :: "int list list"

datatype padding = PadMaxLength | PadLongest | PadFalse

text \<open>The two decoding set-ups of \<open>hf_model.generate\<close>: the sampling parameters of
  \<open>FLAGS\<close>, and \<open>num_beams=1, do_sample=False\<close>.\<close>

datatype decoding = FlagsDecoding | GreedyDecoding

text \<open>
  What \<open>main\<close> sets up before the server class is defined. The flags are fields; the
  tokenizers, the flax module, its \<open>generate\<close> and the floating-point operations are
  external to the file and are fields too:
  \<^item> \<open>prefix_tokenizer\<close> (truncating and padding on the left) and \<open>tokenizer\<close> (on the
    right) take the texts, \<open>padding\<close>, \<open>truncation\<close> and \<open>max_length\<close>; a call on one
    string is the call on the one-element list (both give an array with one row);
  \<^item> \<open>module_apply keys input_tokens attention_mask\<close> is \<open>hf_model.module.apply(...).logits\<close>,
    one value of type \<open>'lg\<close> (the logits over the vocabulary) per position;
  \<^item> \<open>token_ll lg t\<close> is minus the softmax cross entropy of \<open>lg\<close> with label \<open>t\<close>,
    \<open>argmax lg\<close> the most likely token, \<open>fmask x m\<close> the product of a float and a mask
    entry, \<open>fsum\<close> the sum of a row, \<open>fadd\<close> and \<open>fzero\<close> float addition and \<open>0.0\<close>;
  \<^item> \<open>hf_generate d key input_tokens attention_mask\<close> is
    \<open>hf_model.generate(...).sequences\<close>.
\<close>

record ('rng, 'lg, 'f) env =
  input_length :: int
  seq_length :: int
  loglikelihood_add_bos_token :: bool
  prefix_tokenizer :: "string list \<Rightarrow> padding \<Rightarrow> bool \<Rightarrow> int \<Rightarrow> encoding"
  tokenizer :: "string list \<Rightarrow> padding \<Rightarrow> bool \<Rightarrow> int \<Rightarrow> encoding"
  batch_decode :: "int list list \<Rightarrow> string list"
  pad_token_id :: int
  bos_token_id :: int
  eos_token :: string
  derive :: "'rng \<Rightarrow> 'rng \<times> 'rng"
  derive_keys :: "'rng \<Rightarrow> 'rng \<times> 'rng"
  module_apply :: "'rng \<Rightarrow> int list list \<Rightarrow> int list list \<Rightarrow> error + 'lg list list"
  token_ll :: "'lg \<Rightarrow> int \<Rightarrow> 'f"
  argmax :: "'lg \<Rightarrow> int"
  fmask :: "'f \<Rightarrow> int \<Rightarrow> 'f"
  fsum :: "'f list \<Rightarrow> 'f"
  fadd :: "'f \<Rightarrow> 'f \<Rightarrow> 'f"
  fzero :: 'f
  hf_generate :: "decoding \<Rightarrow> 'rng \<Rightarrow> int list list \<Rightarrow> int list list \<Rightarrow> error + int list list"

text \<open>
  Modelled from the spec: \<open>JaxRNG\<close> of \<open>coh.jax_utils\<close>, which is not in the file. The
  spec's \<open>derive()\<close> returns a value for the call and the successor state of the
  generator; \<open>derive\<close> is the call \<open>rng_generator()\<close> and \<open>derive_keys\<close> the call
  \<open>rng_generator(opt_config.rng_keys())\<close>, each returning (value, successor state).
\<close>

text \<open>\<open>np.iinfo(np.int32).max\<close>\<close>

definition int32_max :: int where
  "int32_max = 2147483647"

record ll_batch =
  input_tokens :: "int list list"
  output_tokens :: "int list list"
  input_mask :: "int list list"
  output_mask :: "int list list"

record gen_batch =
  gen_input_tokens :: "int list list"
  gen_attention_mask :: "int list list"

section \<open>The three jitted functions\<close>

definition same_shape :: "'a list list \<Rightarrow> 'b list list \<Rightarrow> bool" where
  "same_shape a b = (map length a = map length b)"

text \<open>
  \<open>forward_loglikelihood\<close> (lines 118 to 144). The logits, the labels and the output
  mask are combined position by position; arrays of different shapes raise.
\<close>

definition forward_loglikelihood ::
  "('rng, 'lg, 'f) env \<Rightarrow> 'rng \<Rightarrow> ll_batch \<Rightarrow> error + ('f list \<times> bool list \<times> 'rng)" where
  "forward_loglikelihood env rng batch =
     (let (keys, s1) = derive_keys env rng
      in case module_apply env keys (input_tokens batch) (input_mask batch) of
           Inl e \<Rightarrow> Inl e
         | Inr logits \<Rightarrow>
             if \<not> (same_shape logits (output_tokens batch)
                    \<and> same_shape (output_tokens batch) (output_mask batch))
             then Inl ValueError
             else
               let rows = zip logits (zip (output_tokens batch) (output_mask batch));
                   loglikelihood =
                     map (\<lambda>(lg, toks, mask).
                            fsum env (map2 (fmask env) (map2 (token_ll env) lg toks) mask)) rows;
                   match_count =
                     map (\<lambda>(lg, toks, mask).
                            sum_list (map2 (\<lambda>(l, t) m. (if argmax env l = t then 1 else 0) * m)
                                           (zip lg toks) mask)) rows;
                   total = map sum_list (output_mask batch);
                   is_greedy = map2 (=) match_count total
               in Inr (loglikelihood, is_greedy, fst (derive env s1)))"

text \<open>\<open>forward_generate\<close> and \<open>forward_greedy_generate\<close> (lines 149 to 187) differ in the
  decoding set-up only.\<close>

definition generate_with ::
  "decoding \<Rightarrow> ('rng, 'lg, 'f) env \<Rightarrow> 'rng \<Rightarrow> gen_batch \<Rightarrow> error + (int list list \<times> 'rng)" where
  "generate_with d env rng batch =
     (let (key, s1) = derive env rng
      in case hf_generate env d key (gen_input_tokens batch) (gen_attention_mask batch) of
           Inl e \<Rightarrow> Inl e
         | Inr sequences \<Rightarrow>
             Inr (map (\<lambda>r. py_slice r (Some (int (shape1 (gen_input_tokens batch)))) None)
                      sequences,
                  fst (derive env s1)))"

definition forward_generate ::
  "('rng, 'lg, 'f) env \<Rightarrow> 'rng \<Rightarrow> gen_batch \<Rightarrow> error + (int list list \<times> 'rng)" where
  "forward_generate = generate_with FlagsDecoding"

definition forward_greedy_generate ::
  "('rng, 'lg, 'f) env \<Rightarrow> 'rng \<Rightarrow> gen_batch \<Rightarrow> error + (int list list \<times> 'rng)" where
  "forward_greedy_generate = generate_with GreedyDecoding"

section \<open>The session\<close>

text \<open>
  The one mutable variable of the server is \<open>sharded_rng\<close>. Beside it the session keeps
  the list of the calls made to the three jitted functions, each with the RNG state it
  was passed, its batch and what it returned, oldest first. The list is written and
  never read by the operations: it is there for the properties about the calls.
\<close>

datatype ('rng, 'f) invocation =
    Score 'rng ll_batch "error + ('f list \<times> bool list \<times> 'rng)"
  | Generate 'rng gen_batch "error + (int list list \<times> 'rng)"
  | GreedyGenerate 'rng gen_batch "error + (int list list \<times> 'rng)"

record ('rng, 'f) session =
  sharded_rng :: 'rng
  calls :: "('rng, 'f) invocation list"

text \<open>The statement
  \<open>loglikelihood, is_greedy, sharded_rng = forward_loglikelihood(params, sharded_rng, batch)\<close>:
  the variable is assigned when the call has returned.\<close>

definition call_forward_loglikelihood ::
  "('rng, 'lg, 'f) env \<Rightarrow> ll_batch \<Rightarrow> ('rng, 'f) session
     \<Rightarrow> (error + ('f list \<times> bool list)) \<times> ('rng, 'f) session" where
  "call_forward_loglikelihood env batch st =
     (let res = forward_loglikelihood env (sharded_rng st) batch;
          st' = st\<lparr>calls := calls st @ [Score (sharded_rng st) batch res]\<rparr>
      in case res of
           Inl e \<Rightarrow> (Inl e, st')
         | Inr (ll, g, rng') \<Rightarrow> (Inr (ll, g), st'\<lparr>sharded_rng := rng'\<rparr>))"

definition call_forward_generate ::
  "('rng, 'lg, 'f) env \<Rightarrow> gen_batch \<Rightarrow> ('rng, 'f) session
     \<Rightarrow> (error + int list list) \<times> ('rng, 'f) session" where
  "call_forward_generate env batch st =
     (let res = forward_generate env (sharded_rng st) batch;
          st' = st\<lparr>calls := calls st @ [Generate (sharded_rng st) batch res]\<rparr>
      in case res of
           Inl e \<Rightarrow> (Inl e, st')
         | Inr (out, rng') \<Rightarrow> (Inr out, st'\<lparr>sharded_rng := rng'\<rparr>))"

definition call_forward_greedy_generate ::
  "('rng, 'lg, 'f) env \<Rightarrow> gen_batch \<Rightarrow> ('rng, 'f) session
     \<Rightarrow> (error + int list list) \<times> ('rng, 'f) session" where
  "call_forward_greedy_generate env batch st =
     (let res = forward_greedy_generate env (sharded_rng st) batch;
          st' = st\<lparr>calls := calls st @ [GreedyGenerate (sharded_rng st) batch res]\<rparr>
      in case res of
           Inl e \<Rightarrow> (Inl e, st')
         | Inr (out, rng') \<Rightarrow> (Inr out, st'\<lparr>sharded_rng := rng'\<rparr>))"

section \<open>\<open>loglikelihood\<close>\<close>

text \<open>Lines 198 to 234: the batch built from the two tokenizations.\<close>

definition loglikelihood_batch ::
  "('rng, 'lg, 'f) env \<Rightarrow> string list \<Rightarrow> string list \<Rightarrow> error + ll_batch" where
  "loglikelihood_batch env prefix_text text =
     (let prefix = prefix_tokenizer env prefix_text PadMaxLength True (input_length env);
          inputs = tokenizer env text PadMaxLength True (seq_length env - input_length env)
      in ebind (concatenate1 (input_ids prefix) (input_ids inputs)) (\<lambda>output_tokens.
         let bos_tokens = replicate (length output_tokens) [bos_token_id env]
         in ebind (concatenate1 bos_tokens (map (\<lambda>r. py_slice r None (Some (- 1))) output_tokens))
              (\<lambda>input_tokens.
         ebind (concatenate1 (attention_mask prefix) (attention_mask inputs)) (\<lambda>input_mask.
         let bos_mask =
               map (\<lambda>r. map (\<lambda>_. if loglikelihood_add_bos_token env then 1 else 0)
                             (py_slice r None (Some 1))) input_mask
         in ebind (concatenate1 bos_mask (map (\<lambda>r. py_slice r None (Some (- 1))) input_mask))
              (\<lambda>input_mask.
         ebind (concatenate1 (map (map (\<lambda>_. 0)) (attention_mask prefix)) (attention_mask inputs))
              (\<lambda>output_mask.
         Inr \<lparr>input_tokens = input_tokens, output_tokens = output_tokens,
              input_mask = input_mask, output_mask = output_mask\<rparr>))))))"

definition loglikelihood ::
  "('rng, 'lg, 'f) env \<Rightarrow> string list \<Rightarrow> string list \<Rightarrow> ('rng, 'f) session
     \<Rightarrow> (error + ('f list \<times> bool list)) \<times> ('rng, 'f) session" where
  "loglikelihood env prefix_text text st =
     (case loglikelihood_batch env prefix_text text of
        Inl e \<Rightarrow> (Inl e, st)
      | Inr batch \<Rightarrow> call_forward_loglikelihood env batch st)"

section \<open>\<open>loglikelihood_rolling\<close>\<close>

text \<open>Lines 245 to 272: the tokens padded on the right up to \<open>seq_length\<close>, the tokens
  shifted right behind a beginning-of-sequence token, and the attention mask. The
  result is \<open>(input_tokens, output_tokens, attention_mask)\<close>. The array \<open>bos_mask\<close> of
  line 271 is built and not used afterwards.\<close>

definition rolling_arrays ::
  "('rng, 'lg, 'f) env \<Rightarrow> string list
     \<Rightarrow> error + (int list list \<times> int list list \<times> int list list)" where
  "rolling_arrays env text =
     (let inputs = tokenizer env text PadLongest False int32_max;
          batch_size = length (input_ids inputs);
          padded =
            (if int (shape1 (input_ids inputs)) < seq_length env then
               let padding_length = nat (seq_length env - int (shape1 (input_ids inputs)));
                   pad_tokens = replicate batch_size (replicate padding_length (pad_token_id env));
                   pad_mask = replicate batch_size (replicate padding_length 0)
               in ebind (concatenate1 (input_ids inputs) pad_tokens) (\<lambda>output_tokens.
                  ebind (concatenate1 (attention_mask inputs) pad_mask) (\<lambda>attention_mask.
                  Inr (output_tokens, attention_mask)))
             else Inr (input_ids inputs, attention_mask inputs))
      in ebind padded (\<lambda>(output_tokens, attention_mask).
         let bos_tokens = replicate batch_size [bos_token_id env]
         in ebind (concatenate1 bos_tokens (map (\<lambda>r. py_slice r None (Some (- 1))) output_tokens))
              (\<lambda>input_tokens.
         Inr (input_tokens, output_tokens, attention_mask))))"

text \<open>\<open>m[: j] = 0.0\<close> on one row.\<close>

definition zero_until :: "int list \<Rightarrow> int \<Rightarrow> int list" where
  "zero_until m j = (let b = py_index (length m) j in replicate b 0 @ drop b m)"

text \<open>Lines 279 to 297: the batch of the window that starts at \<open>i\<close>.\<close>

definition window_batch ::
  "('rng, 'lg, 'f) env \<Rightarrow> int list list \<Rightarrow> int list list \<Rightarrow> int list list \<Rightarrow> int \<Rightarrow> ll_batch" where
  "window_batch env itoks otoks amask i =
     (let total_seq_length = int (shape1 otoks);
          n = seq_length env
      in if i + n > total_seq_length then
           let last_output_mask =
                 map (\<lambda>r. zero_until (py_slice r (Some (- n)) None) (i - total_seq_length)) amask
           in \<lparr>input_tokens = map (\<lambda>r. py_slice r (Some (- n)) None) itoks,
               output_tokens = map (\<lambda>r. py_slice r (Some (- n)) None) otoks,
               input_mask = map (\<lambda>r. py_slice r (Some (- n)) None) amask,
               output_mask = last_output_mask\<rparr>
         else
           \<lparr>input_tokens = map (\<lambda>r. py_slice r (Some i) (Some (i + n))) itoks,
            output_tokens = map (\<lambda>r. py_slice r (Some i) (Some (i + n))) otoks,
            input_mask = map (\<lambda>r. py_slice r (Some i) (Some (i + n))) amask,
            output_mask = map (\<lambda>r. py_slice r (Some i) (Some (i + n))) amask\<rparr>)"

text \<open>The loop of line 277 over the window offsets that are left, with the two
  accumulators.\<close>

fun rolling_loop ::
  "('rng, 'lg, 'f) env \<Rightarrow> int list list \<Rightarrow> int list list \<Rightarrow> int list list \<Rightarrow> int list
     \<Rightarrow> 'f nd \<Rightarrow> bool nd \<Rightarrow> ('rng, 'f) session
     \<Rightarrow> (error + ('f nd \<times> bool nd)) \<times> ('rng, 'f) session" where
  "rolling_loop env itoks otoks amask [] total_loglikelihood total_is_greedy st =
     (Inr (total_loglikelihood, total_is_greedy), st)"
| "rolling_loop env itoks otoks amask (i # offsets) total_loglikelihood total_is_greedy st =
     (case call_forward_loglikelihood env (window_batch env itoks otoks amask i) st of
        (Inl e, st') \<Rightarrow> (Inl e, st')
      | (Inr (ll, is_greedy), st') \<Rightarrow>
          (case np_iadd (fadd env) total_loglikelihood ll of
             Inl e \<Rightarrow> (Inl e, st')
           | Inr total_loglikelihood' \<Rightarrow>
               (case np_logical_and is_greedy total_is_greedy of
                  Inl e \<Rightarrow> (Inl e, st')
                | Inr total_is_greedy' \<Rightarrow>
                    rolling_loop env itoks otoks amask offsets
                      total_loglikelihood' total_is_greedy' st')))"

definition loglikelihood_rolling ::
  "('rng, 'lg, 'f) env \<Rightarrow> string list \<Rightarrow> ('rng, 'f) session
     \<Rightarrow> (error + ('f nd \<times> bool nd)) \<times> ('rng, 'f) session" where
  "loglikelihood_rolling env text st =
     (case rolling_arrays env text of
        Inl e \<Rightarrow> (Inl e, st)
      | Inr (itoks, otoks, amask) \<Rightarrow>
          (case py_range0 (int (shape1 otoks)) (seq_length env) of
             Inl e \<Rightarrow> (Inl e, st)
           | Inr offsets \<Rightarrow>
               rolling_loop env itoks otoks amask offsets (Scalar (fzero env)) (Scalar True) st))"

section \<open>\<open>generate\<close>\<close>

fun cut_at_eos :: "string \<Rightarrow> string list \<Rightarrow> error + string list" where
  "cut_at_eos eos [] = Inr []"
| "cut_at_eos eos (t # ts) =
     ebind (if py_in eos t then split_first eos t else Inr t) (\<lambda>t'.
     ebind (cut_at_eos eos ts) (\<lambda>ts'. Inr (t' # ts')))"

definition generate ::
  "('rng, 'lg, 'f) env \<Rightarrow> string list \<Rightarrow> ('rng, 'f) session
     \<Rightarrow> (error + string list) \<times> ('rng, 'f) session" where
  "generate env text st =
     (let inputs = prefix_tokenizer env text PadMaxLength True (input_length env);
          batch = \<lparr>gen_input_tokens = input_ids inputs,
                   gen_attention_mask = attention_mask inputs\<rparr>
      in case call_forward_generate env batch st of
           (Inl e, st') \<Rightarrow> (Inl e, st')
         | (Inr output, st') \<Rightarrow> (cut_at_eos (eos_token env) (batch_decode env output), st'))"

section \<open>\<open>greedy_until\<close>\<close>

text \<open>An element of \<open>until\<close> is one string or a list of strings (line 342).\<close>

datatype until = Str string | Strs "string list"

fun stop_list :: "until \<Rightarrow> string list" where
  "stop_list (Str s) = [s]"
| "stop_list (Strs ss) = ss"

text \<open>Lines 389 to 393: the stop strings that are left, the text and the flag \<open>done\<close>.\<close>

fun stop_scan :: "string list \<Rightarrow> string \<Rightarrow> bool \<Rightarrow> error + (string \<times> bool)" where
  "stop_scan [] total_generated done = Inr (total_generated, done)"
| "stop_scan (s # ut) total_generated done =
     (if py_in s total_generated then
        ebind (split_first s total_generated) (\<lambda>t. stop_scan ut t True)
      else stop_scan ut total_generated done)"

text \<open>Lines 348 to 376: the prefix padded or cut on the left to \<open>input_length\<close> tokens.\<close>

definition greedy_batch :: "('rng, 'lg, 'f) env \<Rightarrow> string \<Rightarrow> error + gen_batch" where
  "greedy_batch env pf =
     (let pf_tokens = tokenizer env [pf] PadFalse False int32_max;
          itoks = input_ids pf_tokens;
          amask = attention_mask pf_tokens
      in if int (shape1 itoks) < input_length env then
           let extra = nat (input_length env - int (shape1 itoks));
               pad_tokens = [replicate extra (pad_token_id env)];
               pad_attention = [replicate extra 0]
           in ebind (concatenate1 pad_tokens itoks) (\<lambda>itoks'.
              ebind (concatenate1 pad_attention amask) (\<lambda>amask'.
              Inr \<lparr>gen_input_tokens = itoks', gen_attention_mask = amask'\<rparr>))
         else if int (shape1 itoks) > input_length env then
           Inr \<lparr>gen_input_tokens = map (\<lambda>r. py_slice r (Some (- input_length env)) None) itoks,
                gen_attention_mask = map (\<lambda>r. py_slice r (Some (- input_length env)) None) amask\<rparr>
         else Inr \<lparr>gen_input_tokens = itoks, gen_attention_mask = amask\<rparr>)"

text \<open>The \<open>while\<close> loop of line 347 for one pair. The loop need not end (a call may
  generate no token), so the result is an option and \<open>None\<close> is the loop that runs forever.\<close>

partial_function (option) greedy_loop ::
  "('rng, 'lg, 'f) env \<Rightarrow> string list \<Rightarrow> int \<Rightarrow> string \<Rightarrow> int \<Rightarrow> string
     \<Rightarrow> ('rng, 'f) session \<Rightarrow> ((error + string) \<times> ('rng, 'f) session) option" where
  "greedy_loop env ut max_length pf total_length total_generated st =
     (if total_length < max_length then
        (case greedy_batch env pf of
           Inl e \<Rightarrow> Some (Inl e, st)
         | Inr batch \<Rightarrow>
             (case call_forward_greedy_generate env batch st of
                (Inl e, st') \<Rightarrow> Some (Inl e, st')
              | (Inr output, st') \<Rightarrow>
                  (case batch_decode env output of
                     [] \<Rightarrow> Some (Inl IndexError, st')
                   | output_text # _ \<Rightarrow>
                       (case stop_scan ut (total_generated @ output_text) False of
                          Inl e \<Rightarrow> Some (Inl e, st')
                        | Inr (t, done) \<Rightarrow>
                            if done then Some (Inr t, st')
                            else greedy_loop env ut max_length (pf @ output_text)
                                   (total_length + int (shape1 output)) t st'))))
      else Some (Inr total_generated, st))"

declare greedy_loop.simps [code]

text \<open>The \<open>for\<close> loop of line 341 over the pairs that are left.\<close>

fun greedy_pairs ::
  "('rng, 'lg, 'f) env \<Rightarrow> int \<Rightarrow> (string \<times> until) list \<Rightarrow> string list
     \<Rightarrow> ('rng, 'f) session \<Rightarrow> ((error + string list) \<times> ('rng, 'f) session) option" where
  "greedy_pairs env max_length [] all_outputs st = Some (Inr all_outputs, st)"
| "greedy_pairs env max_length ((pf, ut) # rest) all_outputs st =
     (case greedy_loop env (stop_list ut) max_length pf 0 [] st of
        None \<Rightarrow> None
      | Some (Inl e, st') \<Rightarrow> Some (Inl e, st')
      | Some (Inr total_generated, st') \<Rightarrow>
          greedy_pairs env max_length rest (all_outputs @ [total_generated]) st')"

definition greedy_until ::
  "('rng, 'lg, 'f) env \<Rightarrow> string list \<Rightarrow> until list \<Rightarrow> int \<Rightarrow> ('rng, 'f) session
     \<Rightarrow> ((error + string list) \<times> ('rng, 'f) session) option" where
  "greedy_until env prefix_text until max_length st =
     greedy_pairs env max_length (zip prefix_text until) [] st"

section \<open>Requests served one after the other\<close>

text \<open>
  Modelled from the spec: the serving front end (\<open>LMServer\<close> of \<open>coh.serving\<close>) is not in
  the file. A serialized run processes each request to completion before the next
  begins; a request that fails is a failure of that request only, and the session stays
  as the request left it. \<open>None\<close> is a run that never ends.
\<close>

datatype request =
    Loglikelihood "string list" "string list"
  | LoglikelihoodRolling "string list"
  | GenerateText "string list"
  | GreedyUntil "string list" "until list" int

fun handle ::
  "('rng, 'lg, 'f) env \<Rightarrow> request \<Rightarrow> ('rng, 'f) session \<Rightarrow> ('rng, 'f) session option" where
  "handle env (Loglikelihood prefix_text text) st = Some (snd (loglikelihood env prefix_text text st))"
| "handle env (LoglikelihoodRolling text) st = Some (snd (loglikelihood_rolling env text st))"
| "handle env (GenerateText text) st = Some (snd (generate env text st))"
| "handle env (GreedyUntil prefix_text until max_length) st =
     map_option snd (greedy_until env prefix_text until max_length st)"

fun serve ::
  "('rng, 'lg, 'f) env \<Rightarrow> request list \<Rightarrow> ('rng, 'f) session \<Rightarrow> ('rng, 'f) session option" where
  "serve env [] st = Some st"
| "serve env (r # rs) st = (case handle env r st of None \<Rightarrow> None | Some st' \<Rightarrow> serve env rs st')"

text \<open>The RNG state a call was passed, and the one it returned (\<open>None\<close> when it raised).\<close>

fun observed :: "('rng, 'f) invocation \<Rightarrow> 'rng" where
  "observed (Score rng batch res) = rng"
| "observed (Generate rng batch res) = rng"
| "observed (GreedyGenerate rng batch res) = rng"

fun returned :: "('rng, 'f) invocation \<Rightarrow> 'rng option" where
  "returned (Score rng batch res) = (case res of Inl e \<Rightarrow> None | Inr (ll, g, rng') \<Rightarrow> Some rng')"
| "returned (Generate rng batch res) = (case res of Inl e \<Rightarrow> None | Inr (out, rng') \<Rightarrow> Some rng')"
| "returned (GreedyGenerate rng batch res) =
     (case res of Inl e \<Rightarrow> None | Inr (out, rng') \<Rightarrow> Some rng')"

section \<open>A character-level instance\<close>

text \<open>
  A small environment on which the operations can be run: one token per character, the
  RNG states are the natural numbers and a derivation sends \<open>n\<close> to the pair
  \<open>(2n + 1, 2n + 2)\<close>, the logits of a position are the one token the model predicts
  there, and a float is an integer. The tokenizers pad and truncate on the left
  (\<open>prefix_tokenizer\<close>) or on the right (\<open>tokenizer\<close>).
\<close>

definition char_row ::
  "bool \<Rightarrow> bool \<Rightarrow> nat option \<Rightarrow> int \<Rightarrow> string \<Rightarrow> int list \<times> int list" where
  "char_row left truncation width pad t =
     (let ids = map (\<lambda>c. int (of_char c)) t;
          ids' = (case width of
                    Some w \<Rightarrow> if truncation \<and> w < length ids
                              then (if left then drop (length ids - w) ids else take w ids)
                              else ids
                  | None \<Rightarrow> ids);
          k = (case width of Some w \<Rightarrow> w - length ids' | None \<Rightarrow> 0)
      in if left then (replicate k pad @ ids', replicate k 0 @ map (\<lambda>_. 1) ids')
         else (ids' @ replicate k pad, map (\<lambda>_. 1) ids' @ replicate k 0))"

definition char_tokenizer ::
  "bool \<Rightarrow> int \<Rightarrow> string list \<Rightarrow> padding \<Rightarrow> bool \<Rightarrow> int \<Rightarrow> encoding" where
  "char_tokenizer left pad texts p truncation max_length =
     (let width = (case p of
                     PadMaxLength \<Rightarrow> Some (nat max_length)
                   | PadLongest \<Rightarrow> Some (foldr max (map length texts) 0)
                   | PadFalse \<Rightarrow> None);
          rows = map (char_row left (truncation \<and> p = PadMaxLength) width pad) texts
      in \<lparr>input_ids = map fst rows, attention_mask = map snd rows\<rparr>)"

definition char_decode :: "int list list \<Rightarrow> string list" where
  "char_decode = map (map (\<lambda>t. char_of (nat t)))"

text \<open>\<open>toy_env il sl flag model gen\<close>: the flags \<open>input_length\<close>, \<open>seq_length\<close> and
  \<open>loglikelihood_add_bos_token\<close>, the module \<open>model\<close>, and a \<open>generate\<close> that appends
  \<open>gen r\<close> to each row \<open>r\<close> of the prompt.\<close>

definition toy_env ::
  "int \<Rightarrow> int \<Rightarrow> bool \<Rightarrow> (nat \<Rightarrow> int list list \<Rightarrow> int list list \<Rightarrow> error + int list list)
     \<Rightarrow> (int list \<Rightarrow> int list) \<Rightarrow> (nat, int, int) env" where
  "toy_env il sl flag model gen =
     \<lparr>input_length = il, seq_length = sl, loglikelihood_add_bos_token = flag,
      prefix_tokenizer = char_tokenizer True 1, tokenizer = char_tokenizer False 1,
      batch_decode = char_decode, pad_token_id = 1, bos_token_id = 2, eos_token = ''</s>'',
      derive = (\<lambda>n. (2 * n + 1, 2 * n + 2)), derive_keys = (\<lambda>n. (2 * n + 1, 2 * n + 2)),
      module_apply = model,
      token_ll = (\<lambda>lg t. if lg = t then 0 else - 1), argmax = (\<lambda>lg. lg),
      fmask = (\<lambda>x m. x * m), fsum = sum_list, fadd = (+), fzero = 0,
      hf_generate = (\<lambda>d key itoks amask. Inr (map (\<lambda>r. r @ gen r) itoks))\<rparr>"

text \<open>A module that predicts the token \<open>p\<close> at every position.\<close>

definition constant_model :: "int \<Rightarrow> nat \<Rightarrow> int list list \<Rightarrow> int list list \<Rightarrow> error + int list list" where
  "constant_model p keys itoks imask = Inr (map (map (\<lambda>_. p)) itoks)"

text \<open>A module that raises on an input holding the token \<open>x\<close> and predicts \<open>p\<close> otherwise.\<close>

definition raising_model ::
  "int \<Rightarrow> int \<Rightarrow> nat \<Rightarrow> int list list \<Rightarrow> int list list \<Rightarrow> error + int list list" where
  "raising_model x p keys itoks imask =
     (if \<exists>r \<in> set itoks. x \<in> set r then Inl ExecutorError else Inr (map (map (\<lambda>_. p)) itoks))"

definition session0 :: "(nat, int) session" where
  "session0 = \<lparr>sharded_rng = 0, calls = []\<rparr>"

text \<open>The batches of the calls to \<open>forward_loglikelihood\<close> in a list of calls.\<close>

fun scored :: "('rng, 'f) invocation list \<Rightarrow> ll_batch list" where
  "scored [] = []"
| "scored (Score rng batch res # cs) = batch # scored cs"
| "scored (c # cs) = scored cs"

text \<open>The token arrays returned by the calls to \<open>forward_greedy_generate\<close> in a list of
  calls, the text they decode to (\<open>tokenizer.batch_decode(output)[0]\<close> of each, in
  order), and the number of tokens they add to \<open>total_length\<close>.\<close>

fun greedy_outputs :: "('rng, 'f) invocation list \<Rightarrow> int list list list" where
  "greedy_outputs [] = []"
| "greedy_outputs (GreedyGenerate rng batch (Inr (out, rng')) # cs) = out # greedy_outputs cs"
| "greedy_outputs (c # cs) = greedy_outputs cs"

definition generated_text :: "('rng, 'lg, 'f) env \<Rightarrow> ('rng, 'f) invocation list \<Rightarrow> string" where
  "generated_text env cs =
     concat (map (\<lambda>out. case batch_decode env out of [] \<Rightarrow> [] | t # _ \<Rightarrow> t) (greedy_outputs cs))"

definition generated_length :: "('rng, 'f) invocation list \<Rightarrow> int" where
  "generated_length cs = sum_list (map (\<lambda>out. int (shape1 out)) (greedy_outputs cs))"

text \<open>
  The contract of the spec for the constrained generation loop, in the spec's words: the
  generated text truncated at the first occurrence of any stop string. \<open>earliest_stop\<close>
  is the least index at which a stop string occurs in the text.
\<close>

definition earliest_stop :: "string list \<Rightarrow> string \<Rightarrow> nat option" where
  "earliest_stop ut t =
     (case concat (map (\<lambda>s. case find_sub s t of None \<Rightarrow> [] | Some p \<Rightarrow> [p]) ut) of
        [] \<Rightarrow> None
      | p # ps \<Rightarrow> Some (fold min ps p))"

definition truncate_at_first_stop :: "string list \<Rightarrow> string \<Rightarrow> string" where
  "truncate_at_first_stop ut t = (case earliest_stop ut t of None \<Rightarrow> t | Some p \<Rightarrow> take p t)"

section \<open>Basic facts\<close>

lemma ebind_Inr [simp]: "ebind (Inr x) f = f x"
  by (simp add: ebind_def)

lemma ebind_Inl [simp]: "ebind (Inl e) f = Inl e"
  by (simp add: ebind_def)

lemma py_slice_drop_last [simp]: "py_slice r None (Some (- 1)) = butlast r"
  by (simp add: py_slice_def py_index_def butlast_conv_take nat_diff_distrib')

lemma py_slice_first [simp]: "py_slice r None (Some 1) = take 1 r"
  by (cases r) (simp_all add: py_slice_def py_index_def)

lemma concatenate1_same [simp]:
  "length a = length b \<Longrightarrow> concatenate1 a b = Inr (map2 (@) a b)"
  by (simp add: concatenate1_def)

lemma map2_same: "map2 f (map g xs) (map h xs) = map (\<lambda>x. f (g x) (h x)) xs"
  by (induction xs) simp_all

lemma concatenate1_maps [simp]:
  "concatenate1 (map g xs) (map h xs) = Inr (map (\<lambda>x. g x @ h x) xs)"
  by (simp add: concatenate1_def map2_same)

lemma concatenate1_column [simp]:
  "concatenate1 (replicate (length xs) [b]) (map h xs) = Inr (map (\<lambda>x. b # h x) xs)"
  by (simp add: concatenate1_def zip_replicate1 comp_def)

lemma map2_map_left: "map2 f (map g xs) ys = map2 (\<lambda>x y. f (g x) y) xs ys"
  by (induction xs arbitrary: ys) (auto simp: zip_Cons1 split: list.splits)

section \<open>Properties of \<open>greedy_until\<close>\<close>

lemma greedy_pairs_idle:
  "max_length \<le> 0 \<Longrightarrow>
   greedy_pairs env max_length ps acc st = Some (Inr (acc @ replicate (length ps) []), st)"
proof (induction ps arbitrary: acc)
  case Nil
  then show ?case by simp
next
  case (Cons p ps)
  obtain pf ut where p: "p = (pf, ut)" by (cases p)
  have loop: "greedy_loop env (stop_list ut) max_length pf 0 [] st = Some (Inr [], st)"
    using Cons.prems by (subst greedy_loop.simps) simp
  show ?case
    using Cons.IH [OF Cons.prems, of "acc @ [[]]"] by (simp add: p loop replicate_app_Cons_same)
qed

text \<open>
  C10. When \<open>max_length \<le> 0\<close> the loop body runs for no pair: \<open>greedy_until\<close> returns one
  empty string per (prefix, stop set) pair and the session it was given, with the RNG
  state it had and no call added to the list of calls.
\<close>

theorem greedy_until_nonpositive_max_length:
  "max_length \<le> 0 \<Longrightarrow>
   greedy_until env prefix_text until max_length st =
     Some (Inr (replicate (min (length prefix_text) (length until)) []), st)"
  by (simp add: greedy_until_def greedy_pairs_idle)

theorem greedy_until_nonpositive_max_length_witness:
  "(0::int) \<le> 0 \<and>
   greedy_until (toy_env 4 8 False (constant_model 97) (\<lambda>r. [97, 98, 99, 100]))
       [''Count: 1, 2, 3,'', ''x''] [Strs ['' 6,''], Str ''y''] 0 session0
     = Some (Inr [[], []], session0)"
  using greedy_until_nonpositive_max_length
    [of 0 "toy_env 4 8 False (constant_model 97) (\<lambda>r. [97, 98, 99, 100])"
        "[''Count: 1, 2, 3,'', ''x'']" "[Strs ['' 6,''], Str ''y'']" session0]
  by simp

section \<open>Properties of \<open>loglikelihood\<close>\<close>

text \<open>
  C5. Let \<open>prefix\<close> be the tokenization of \<open>prefix_text\<close> by the left-sided tokenizer,
  padded and truncated to \<open>input_length\<close>, and \<open>inputs\<close> that of \<open>text\<close> by the
  right-sided tokenizer, padded and truncated to \<open>seq_length - input_length\<close>, with one
  row per pair and at least one column in all. Then \<open>loglikelihood\<close> calls the executor
  on the batch in which, row by row, \<open>output_tokens\<close> is the prefix tokens followed by
  the continuation tokens, \<open>input_tokens\<close> is the beginning-of-sequence token followed
  by \<open>output_tokens\<close> without its last token, \<open>input_mask\<close> is the concatenated
  attention masks without their last entry behind a first entry that is 1 iff
  \<open>loglikelihood_add_bos_token\<close> is set, and \<open>output_mask\<close> is 0 on the prefix
  positions and the continuation attention mask on the others.
\<close>

theorem loglikelihood_batch_layout:
  assumes P: "prefix = prefix_tokenizer env prefix_text PadMaxLength True (input_length env)"
    and C: "inputs = tokenizer env text PadMaxLength True (seq_length env - input_length env)"
    and rows: "length (input_ids inputs) = length (input_ids prefix)"
              "length (attention_mask prefix) = length (input_ids prefix)"
              "length (attention_mask inputs) = length (input_ids prefix)"
    and wide: "[] \<notin> set (map2 (@) (attention_mask prefix) (attention_mask inputs))"
    and B: "batch =
             \<lparr>input_tokens =
                map (\<lambda>r. bos_token_id env # butlast r)
                    (map2 (@) (input_ids prefix) (input_ids inputs)),
              output_tokens = map2 (@) (input_ids prefix) (input_ids inputs),
              input_mask =
                map (\<lambda>r. (if loglikelihood_add_bos_token env then 1 else 0) # butlast r)
                    (map2 (@) (attention_mask prefix) (attention_mask inputs)),
              output_mask =
                map2 (\<lambda>p c. replicate (length p) 0 @ c)
                     (attention_mask prefix) (attention_mask inputs)\<rparr>"
  shows "loglikelihood_batch env prefix_text text = Inr batch \<and>
         loglikelihood env prefix_text text st = call_forward_loglikelihood env batch st"
proof -
  let ?M = "map2 (@) (attention_mask prefix) (attention_mask inputs)"
  define b :: int where "b = (if loglikelihood_add_bos_token env then 1 else 0)"
  have bos_mask: "\<forall>x \<in> set (zip (attention_mask prefix) (attention_mask inputs)).
                    map (\<lambda>_. b) (take 1 (case x of (p, c) \<Rightarrow> p @ c)) = [b]"
  proof
    fix x assume x: "x \<in> set (zip (attention_mask prefix) (attention_mask inputs))"
    then have "(case x of (p, c) \<Rightarrow> p @ c) \<in> set ?M"
      unfolding set_map by (rule imageI)
    then have "(case x of (p, c) \<Rightarrow> p @ c) \<noteq> []" using wide by metis
    then show "map (\<lambda>_. b) (take 1 (case x of (p, c) \<Rightarrow> p @ c)) = [b]"
      by (cases "case x of (p, c) \<Rightarrow> p @ c") simp_all
  qed
  have zeros: "map (map (\<lambda>_. 0::int)) xs = map (\<lambda>p. replicate (length p) 0) xs"
    for xs :: "int list list"
    by (simp add: map_replicate_const)
  have "loglikelihood_batch env prefix_text text = Inr batch"
    unfolding loglikelihood_batch_def Let_def P [symmetric] C [symmetric] b_def [symmetric] B
    using rows by (simp add: bos_mask zeros map2_map_left del: One_nat_def)
  then show ?thesis by (simp add: loglikelihood_def)
qed

theorem loglikelihood_batch_layout_witness:
  "prefix_tokenizer (toy_env 2 6 False (constant_model 97) (\<lambda>r. [])) [''abc''] PadMaxLength True 2
     = \<lparr>input_ids = [[98, 99]], attention_mask = [[1, 1]]\<rparr> \<and>
   tokenizer (toy_env 2 6 False (constant_model 97) (\<lambda>r. [])) [''de''] PadMaxLength True 4
     = \<lparr>input_ids = [[100, 101, 1, 1]], attention_mask = [[1, 1, 0, 0]]\<rparr> \<and>
   loglikelihood_batch (toy_env 2 6 False (constant_model 97) (\<lambda>r. [])) [''abc''] [''de'']
     = Inr \<lparr>input_tokens = [[2, 98, 99, 100, 101, 1]],
            output_tokens = [[98, 99, 100, 101, 1, 1]],
            input_mask = [[0, 1, 1, 1, 1, 0]],
            output_mask = [[0, 0, 1, 1, 0, 0]]\<rparr>"
proof -
  let ?env = "toy_env 2 6 False (constant_model 97) (\<lambda>r. [])"
  let ?P = "\<lparr>input_ids = [[98, 99]], attention_mask = [[1, 1]]\<rparr>"
  let ?C = "\<lparr>input_ids = [[100, 101, 1, 1]], attention_mask = [[1, 1, 0, 0]]\<rparr>"
  have P: "?P = prefix_tokenizer ?env [''abc''] PadMaxLength True (input_length ?env)"
    by (simp add: toy_env_def char_tokenizer_def char_row_def numeral_2_eq_2)
  have C: "?C = tokenizer ?env [''de''] PadMaxLength True (seq_length ?env - input_length ?env)"
    by (simp add: toy_env_def char_tokenizer_def char_row_def numeral_2_eq_2)
  have flags: "input_length ?env = 2" "seq_length ?env = 6" "bos_token_id ?env = 2"
    "\<not> loglikelihood_add_bos_token ?env"
    by (simp_all add: toy_env_def)
  have "loglikelihood_batch ?env [''abc''] [''de'']
          = Inr \<lparr>input_tokens = [[2, 98, 99, 100, 101, 1]],
                 output_tokens = [[98, 99, 100, 101, 1, 1]],
                 input_mask = [[0, 1, 1, 1, 1, 0]],
                 output_mask = [[0, 0, 1, 1, 0, 0]]\<rparr>"
    using loglikelihood_batch_layout [OF P C _ _ _ _ refl, of session0]
    by (simp add: flags)
  then show ?thesis
    using P C by (simp add: flags)
qed

section \<open>Properties of \<open>loglikelihood_rolling\<close>\<close>

lemma py_slice_window:
  "0 \<le> i \<Longrightarrow> 0 \<le> n \<Longrightarrow> py_slice r (Some i) (Some (i + n)) = take (nat n) (drop (nat i) r)"
  by (auto simp: py_slice_def py_index_def Let_def nat_add_distrib min_def)

lemma py_slice_tail:
  "0 < n \<Longrightarrow> py_slice r (Some (- n)) None = drop (length r - nat n) r"
  by (auto simp: py_slice_def py_index_def Let_def nat_diff_distrib')

lemma zero_until_negative:
  "j < 0 \<Longrightarrow> zero_until m j = replicate (length m - nat (- j)) 0 @ drop (length m - nat (- j)) m"
proof -
  assume "j < 0"
  then have "nat (int (length m) + j) = length m - nat (- j)" by linarith
  with \<open>j < 0\<close> show ?thesis by (simp add: zero_until_def py_index_def Let_def)
qed

lemma py_range0_positive:
  "0 < step \<Longrightarrow> 0 \<le> stop \<Longrightarrow>
   py_range0 stop step = Inr (map (\<lambda>k. int k * step) [0 ..< nat ((stop + step - 1) div step)])"
  by (auto simp: py_range0_def div_pos_neg_trivial)

lemma scored_append [simp]: "scored (xs @ ys) = scored xs @ scored ys"
  by (induction xs rule: scored.induct) simp_all

lemma call_forward_loglikelihood_calls:
  "calls (snd (call_forward_loglikelihood env batch st))
     = calls st @ [Score (sharded_rng st) batch (forward_loglikelihood env (sharded_rng st) batch)]"
  by (simp add: call_forward_loglikelihood_def Let_def split: sum.splits prod.splits)

lemma rolling_loop_calls:
  "\<exists>new. calls (snd (rolling_loop env itoks otoks amask offsets al ag st)) = calls st @ new
        \<and> (\<exists>k \<le> length offsets. scored new = map (window_batch env itoks otoks amask) (take k offsets)
              \<and> length new = k
              \<and> (\<forall>res. fst (rolling_loop env itoks otoks amask offsets al ag st) = Inr res
                    \<longrightarrow> k = length offsets))"
proof (induction offsets arbitrary: al ag st)
  case Nil
  then show ?case by simp
next
  case (Cons i offsets)
  let ?b = "window_batch env itoks otoks amask i"
  let ?c = "Score (sharded_rng st) ?b (forward_loglikelihood env (sharded_rng st) ?b)"
  obtain r st' where call: "call_forward_loglikelihood env ?b st = (r, st')"
    by (cases "call_forward_loglikelihood env ?b st")
  have st': "calls st' = calls st @ [?c]"
    using call_forward_loglikelihood_calls [of env ?b st] call by simp
  show ?case
  proof (cases "\<exists>ll g al' ag'. r = Inr (ll, g) \<and> np_iadd (fadd env) al ll = Inr al'
                  \<and> np_logical_and g ag = Inr ag'")
    case True
    then obtain ll g al' ag' where ok: "r = Inr (ll, g)" "np_iadd (fadd env) al ll = Inr al'"
      "np_logical_and g ag = Inr ag'" by blast
    have step: "rolling_loop env itoks otoks amask (i # offsets) al ag st
                  = rolling_loop env itoks otoks amask offsets al' ag' st'"
      by (simp add: call ok)
    from Cons.IH [of al' ag' st'] obtain new k where
      IH: "calls (snd (rolling_loop env itoks otoks amask offsets al' ag' st')) = calls st' @ new"
          "k \<le> length offsets"
          "scored new = map (window_batch env itoks otoks amask) (take k offsets)"
          "length new = k"
          "\<forall>res. fst (rolling_loop env itoks otoks amask offsets al' ag' st') = Inr res
                    \<longrightarrow> k = length offsets"
      by blast
    have c1: "calls (snd (rolling_loop env itoks otoks amask (i # offsets) al ag st))
                = calls st @ (?c # new)"
      by (simp only: step IH st') simp
    have c2: "\<exists>j \<le> length (i # offsets).
                scored (?c # new) = map (window_batch env itoks otoks amask) (take j (i # offsets))
                \<and> length (?c # new) = j
                \<and> (\<forall>res. fst (rolling_loop env itoks otoks amask (i # offsets) al ag st) = Inr res
                      \<longrightarrow> j = length (i # offsets))"
      by (rule exI [of _ "Suc k"]) (use IH in \<open>simp only: step, simp\<close>)
    show ?thesis using c1 c2 by blast
  next
    case False
    then have stop: "rolling_loop env itoks otoks amask (i # offsets) al ag st = (Inl (case r of Inl e \<Rightarrow> e | _ \<Rightarrow> ValueError), st')
                   \<or> (\<exists>e. rolling_loop env itoks otoks amask (i # offsets) al ag st = (Inl e, st'))"
      by (auto simp: call split: sum.splits prod.splits)
    then obtain e where e: "rolling_loop env itoks otoks amask (i # offsets) al ag st = (Inl e, st')"
      by blast
    have c1: "calls (snd (rolling_loop env itoks otoks amask (i # offsets) al ag st))
                = calls st @ [?c]"
      by (simp only: e snd_conv st')
    have c2: "\<exists>j \<le> length (i # offsets).
                scored [?c] = map (window_batch env itoks otoks amask) (take j (i # offsets))
                \<and> length [?c] = j
                \<and> (\<forall>res. fst (rolling_loop env itoks otoks amask (i # offsets) al ag st) = Inr res
                      \<longrightarrow> j = length (i # offsets))"
      by (rule exI [of _ "Suc 0"]) (simp only: e, simp)
    show ?thesis using c1 c2 by blast
  qed
qed

lemma shape1_rows: "a \<noteq> [] \<Longrightarrow> \<forall>r \<in> set a. length r = w \<Longrightarrow> shape1 a = w"
  by (cases a) (simp_all add: shape1_def)

lemma rolling_arrays_padded:
  assumes enc: "inputs = tokenizer env text PadLongest False int32_max"
    and nonempty: "input_ids inputs \<noteq> []"
    and rows: "length (attention_mask inputs) = length (input_ids inputs)"
    and ids: "\<forall>r \<in> set (input_ids inputs). length r = w"
    and otoks: "otoks = map (\<lambda>r. r @ replicate (nat (seq_length env) - w) (pad_token_id env))
                          (input_ids inputs)"
    and amask: "amask = map (\<lambda>r. r @ replicate (nat (seq_length env) - w) 0)
                          (attention_mask inputs)"
    and itoks: "itoks = map (\<lambda>r. bos_token_id env # butlast r) otoks"
  shows "rolling_arrays env text = Inr (itoks, otoks, amask)"
proof -
  have w: "shape1 (input_ids inputs) = w"
    using nonempty ids by (rule shape1_rows)
  have pad: "map2 (@) xs (replicate (length xs) p) = map (\<lambda>r. r @ p) xs" for xs :: "int list list" and p
    by (induction xs) simp_all
  have nat_eq: "int w < seq_length env \<Longrightarrow> nat (seq_length env - int w) = nat (seq_length env) - w"
    by linarith
  have zero: "\<not> int w < seq_length env \<Longrightarrow> nat (seq_length env) - w = 0"
    by linarith
  show ?thesis
  proof (cases "int w < seq_length env")
    case True
    then show ?thesis
      unfolding rolling_arrays_def Let_def enc [symmetric] w
      using rows pad [of "input_ids inputs"] pad [of "attention_mask inputs"]
      by (simp add: nat_eq otoks amask itoks)
  next
    case False
    then show ?thesis
      unfolding rolling_arrays_def Let_def enc [symmetric] w
      by (simp add: zero otoks amask itoks)
  qed
qed

lemma window_batch_normal:
  assumes "0 < seq_length env" and "0 \<le> i" and "i + seq_length env \<le> int (shape1 otoks)"
  shows "window_batch env itoks otoks amask i =
           \<lparr>input_tokens = map (\<lambda>r. take (nat (seq_length env)) (drop (nat i) r)) itoks,
            output_tokens = map (\<lambda>r. take (nat (seq_length env)) (drop (nat i) r)) otoks,
            input_mask = map (\<lambda>r. take (nat (seq_length env)) (drop (nat i) r)) amask,
            output_mask = map (\<lambda>r. take (nat (seq_length env)) (drop (nat i) r)) amask\<rparr>"
  using assms by (simp add: window_batch_def Let_def py_slice_window)

lemma window_batch_last:
  assumes n: "0 < seq_length env" and i: "0 \<le> i" "i < int T"
    and over: "int T < i + seq_length env"
    and shape: "shape1 otoks = T" "nat (seq_length env) \<le> T"
    and rect: "\<forall>r \<in> set amask. length r = T"
  shows "window_batch env itoks otoks amask i =
           \<lparr>input_tokens = map (\<lambda>r. drop (length r - nat (seq_length env)) r) itoks,
            output_tokens = map (\<lambda>r. drop (length r - nat (seq_length env)) r) otoks,
            input_mask = map (\<lambda>r. drop (length r - nat (seq_length env)) r) amask,
            output_mask =
              map (\<lambda>r. replicate (nat (seq_length env) - (T - nat i)) 0 @ drop (nat i) r)
                  amask\<rparr>"
proof -
  have neg: "i - int T < 0" using i by simp
  have mask: "zero_until (drop (length r - nat (seq_length env)) r) (i - int T)
                = replicate (nat (seq_length env) - (T - nat i)) 0 @ drop (nat i) r"
    if "r \<in> set amask" for r
  proof -
    have len: "length r = T" using rect that by blast
    have a: "nat (- (i - int T)) = T - nat i" "nat (int T - i) = T - nat i" using i by linarith+
    have b: "T - (T - nat (seq_length env)) = nat (seq_length env)" using shape by linarith
    have c: "nat (seq_length env) - (T - nat i) + (T - nat (seq_length env)) = nat i"
      using shape i over by linarith
    show ?thesis
      by (simp add: zero_until_negative [OF neg] len a b c)
  qed
  show ?thesis
    using n over shape(1) by (simp add: window_batch_def Let_def py_slice_tail mask)
qed

lemma loglikelihood_rolling_calls:
  assumes arrays: "rolling_arrays env text = Inr (itoks, otoks, amask)"
    and range: "py_range0 (int (shape1 otoks)) (seq_length env) = Inr offsets"
  shows "\<exists>new. calls (snd (loglikelihood_rolling env text st)) = calls st @ new
        \<and> (\<exists>k \<le> length offsets. scored new = map (window_batch env itoks otoks amask) (take k offsets)
              \<and> length new = k
              \<and> (\<forall>res. fst (loglikelihood_rolling env text st) = Inr res \<longrightarrow> k = length offsets))"
proof -
  have "loglikelihood_rolling env text st =
          rolling_loop env itoks otoks amask offsets (Scalar (fzero env)) (Scalar True) st"
    by (simp add: loglikelihood_rolling_def arrays range)
  then show ?thesis
    using rolling_loop_calls [of env itoks otoks amask offsets "Scalar (fzero env)" "Scalar True" st]
    by simp
qed

lemma rolling_offsets:
  assumes "0 < seq_length env" and "n = nat (seq_length env)"
  shows "py_range0 (int T) (seq_length env)
           = Inr (map (\<lambda>k. int (k * n)) [0 ..< (T + n - 1) div n])"
proof -
  have s: "seq_length env = int n" using assms by simp
  have "nat ((int T + int n - 1) div int n) = (T + n - 1) div n"
  proof -
    have "0 < n" using assms by simp
    then have "int T + int n - 1 = int (T + n - 1)" by linarith
    then show ?thesis by (simp add: zdiv_int [symmetric] del: of_nat_add of_nat_diff)
  qed
  then show ?thesis
    using assms(1) by (simp add: py_range0_positive s mult.commute)
qed

text \<open>
  C3. Let the tokenization of \<open>text\<close> have \<open>w\<close> columns, \<open>n = seq_length > 0\<close>, and
  \<open>T = max w n\<close> the length of the sequence padded up to \<open>n\<close>. Then
  \<open>loglikelihood_rolling\<close> iterates the offsets \<open>0, n, 2n, ...\<close> below \<open>T\<close>; a window at
  \<open>k * n\<close> with \<open>(k + 1) * n \<le> T\<close> is the slice from \<open>k * n\<close> to \<open>(k + 1) * n\<close> of the
  shifted tokens, the tokens and the attention mask, the mask slice being input mask
  and output mask; a window with \<open>(k + 1) * n > T\<close> is the last \<open>n\<close> positions, its
  output mask zero on all but the last \<open>T - k * n\<close> of them. The calls made to the
  executor are on these windows in this order, all of them when the operation returns.
  For 40 tokens and \<open>seq_length = 16\<close> (the witness) there are three calls, and the
  output mask of the third is zero on its first 8 positions.
\<close>

theorem rolling_windows:
  assumes enc: "inputs = tokenizer env text PadLongest False int32_max"
    and nonempty: "input_ids inputs \<noteq> []"
    and rows: "length (attention_mask inputs) = length (input_ids inputs)"
    and ids: "\<forall>r \<in> set (input_ids inputs). length r = w"
    and masks: "\<forall>r \<in> set (attention_mask inputs). length r = w"
    and n: "0 < seq_length env" "n = nat (seq_length env)"
    and T: "T = max w n"
    and otoks: "otoks = map (\<lambda>r. r @ replicate (n - w) (pad_token_id env)) (input_ids inputs)"
    and amask: "amask = map (\<lambda>r. r @ replicate (n - w) 0) (attention_mask inputs)"
    and itoks: "itoks = map (\<lambda>r. bos_token_id env # butlast r) otoks"
    and offsets: "offsets = map (\<lambda>k. int (k * n)) [0 ..< (T + n - 1) div n]"
  shows "rolling_arrays env text = Inr (itoks, otoks, amask)
       \<and> py_range0 (int (shape1 otoks)) (seq_length env) = Inr offsets
       \<and> (\<forall>k. (k + 1) * n \<le> T \<longrightarrow>
             window_batch env itoks otoks amask (int (k * n)) =
               \<lparr>input_tokens = map (\<lambda>r. take n (drop (k * n) r)) itoks,
                output_tokens = map (\<lambda>r. take n (drop (k * n) r)) otoks,
                input_mask = map (\<lambda>r. take n (drop (k * n) r)) amask,
                output_mask = map (\<lambda>r. take n (drop (k * n) r)) amask\<rparr>)
       \<and> (\<forall>k. k * n < T \<and> T < (k + 1) * n \<longrightarrow>
             window_batch env itoks otoks amask (int (k * n)) =
               \<lparr>input_tokens = map (drop (T - n)) itoks,
                output_tokens = map (drop (T - n)) otoks,
                input_mask = map (drop (T - n)) amask,
                output_mask = map (\<lambda>r. replicate (n - (T - k * n)) 0 @ drop (k * n) r) amask\<rparr>)
       \<and> (\<exists>new k. calls (snd (loglikelihood_rolling env text st)) = calls st @ new
             \<and> k \<le> length offsets
             \<and> scored new = map (window_batch env itoks otoks amask) (take k offsets)
             \<and> length new = k
             \<and> (\<forall>res. fst (loglikelihood_rolling env text st) = Inr res \<longrightarrow> k = length offsets))"
proof -
  have arrays: "rolling_arrays env text = Inr (itoks, otoks, amask)"
    using enc nonempty rows ids by (rule rolling_arrays_padded) (simp_all add: otoks amask itoks n)
  have len_o: "\<forall>r \<in> set otoks. length r = T"
    using ids by (auto simp: otoks T)
  have len_a: "\<forall>r \<in> set amask. length r = T"
    using masks by (auto simp: amask T)
  have Tpos: "0 < T" using n by (simp add: T)
  have len_i: "\<forall>r \<in> set itoks. length r = T"
    using len_o Tpos by (auto simp: itoks)
  have shape: "shape1 otoks = T"
    using nonempty len_o by (intro shape1_rows) (simp_all add: otoks)
  have sn: "seq_length env = int n" using n by simp
  have range: "py_range0 (int (shape1 otoks)) (seq_length env) = Inr offsets"
    unfolding shape offsets using n by (rule rolling_offsets)
  have normal: "window_batch env itoks otoks amask (int (k * n)) =
               \<lparr>input_tokens = map (\<lambda>r. take n (drop (k * n) r)) itoks,
                output_tokens = map (\<lambda>r. take n (drop (k * n) r)) otoks,
                input_mask = map (\<lambda>r. take n (drop (k * n) r)) amask,
                output_mask = map (\<lambda>r. take n (drop (k * n) r)) amask\<rparr>"
    if "(k + 1) * n \<le> T" for k
  proof -
    have "int (k * n) + seq_length env \<le> int (shape1 otoks)"
      using that by (simp add: shape sn del: of_nat_mult of_nat_add flip: of_nat_add)
    from window_batch_normal [OF n(1) _ this, of itoks amask] show ?thesis
      by (simp add: n(2) del: of_nat_mult)
  qed
  have last: "window_batch env itoks otoks amask (int (k * n)) =
               \<lparr>input_tokens = map (drop (T - n)) itoks,
                output_tokens = map (drop (T - n)) otoks,
                input_mask = map (drop (T - n)) amask,
                output_mask = map (\<lambda>r. replicate (n - (T - k * n)) 0 @ drop (k * n) r) amask\<rparr>"
    if "k * n < T \<and> T < (k + 1) * n" for k
  proof -
    have a: "int (k * n) < int T" using that by (simp del: of_nat_mult)
    have b: "int T < int (k * n) + seq_length env"
      using that by (simp add: sn del: of_nat_mult of_nat_add flip: of_nat_add)
    have c: "nat (seq_length env) \<le> T" by (simp add: T n(2))
    from window_batch_last [OF n(1) _ a b shape c len_a, of itoks] show ?thesis
      using len_i len_o len_a by (simp add: n(2) del: of_nat_mult cong: map_cong)
  qed
  from loglikelihood_rolling_calls [OF arrays range, of st]
  have log: "\<exists>new k. calls (snd (loglikelihood_rolling env text st)) = calls st @ new
             \<and> k \<le> length offsets
             \<and> scored new = map (window_batch env itoks otoks amask) (take k offsets)
             \<and> length new = k
             \<and> (\<forall>res. fst (loglikelihood_rolling env text st) = Inr res \<longrightarrow> k = length offsets)"
    by blast
  show ?thesis using arrays range normal last log by blast
qed

theorem rolling_windows_witness:
  "0 < seq_length (toy_env 8 16 False (constant_model 97) (\<lambda>r. []))
   \<and> shape1 (input_ids (tokenizer (toy_env 8 16 False (constant_model 97) (\<lambda>r. []))
         [''abcdefghijabcdefghijabcdefghijabcdefghij''] PadLongest False int32_max)) = 40
   \<and> length (calls (snd (loglikelihood_rolling (toy_env 8 16 False (constant_model 97) (\<lambda>r. []))
         [''abcdefghijabcdefghijabcdefghijabcdefghij''] session0))) = 3
   \<and> map output_mask (scored (calls (snd (loglikelihood_rolling
         (toy_env 8 16 False (constant_model 97) (\<lambda>r. []))
         [''abcdefghijabcdefghijabcdefghijabcdefghij''] session0))))
       = [[replicate 16 1], [replicate 16 1], [replicate 8 0 @ replicate 8 1]]"
proof -
  let ?env = "toy_env 8 16 False (constant_model 97) (\<lambda>r. [])"
  let ?text = "[''abcdefghijabcdefghijabcdefghijabcdefghij'']"
  let ?ids = "[97, 98, 99, 100, 101, 102, 103, 104, 105, 106, 97, 98, 99, 100, 101, 102, 103,
               104, 105, 106, 97, 98, 99, 100, 101, 102, 103, 104, 105, 106, 97, 98, 99, 100,
               101, 102, 103, 104, 105, 106] :: int list"
  let ?inputs = "\<lparr>input_ids = [?ids], attention_mask = [replicate 40 1]\<rparr>"
  let ?amask = "map (\<lambda>r. r @ replicate (16 - 40) 0) (attention_mask ?inputs)"
  let ?otoks = "map (\<lambda>r. r @ replicate (16 - 40) (pad_token_id ?env)) (input_ids ?inputs)"
  let ?itoks = "map (\<lambda>r. bos_token_id ?env # butlast r) ?otoks"
  let ?offsets = "map (\<lambda>k. int (k * 16)) [0 ..< (40 + 16 - 1) div 16]"
  have enc: "?inputs = tokenizer ?env ?text PadLongest False int32_max"
    by code_simp
  have n: "0 < seq_length ?env" "(16::nat) = nat (seq_length ?env)"
    by (simp_all add: toy_env_def)
  have ok: "fst (loglikelihood_rolling ?env ?text session0) = Inr (Vector [- 36], Vector [False])"
    by code_simp
  have offs: "?offsets = [0, 16, 32]"
    by code_simp
  have amask: "?amask = [replicate 40 1]"
    by simp
  note main = rolling_windows [where st = session0 and w = 40 and T = 40,
      OF enc _ _ _ _ n _ refl refl refl refl]
  have main': "(\<forall>k. (k + 1) * 16 \<le> (40::nat) \<longrightarrow>
                 output_mask (window_batch ?env ?itoks ?otoks ?amask (int (k * 16)))
                   = map (\<lambda>r. take 16 (drop (k * 16) r)) ?amask)
        \<and> (\<forall>k. k * 16 < (40::nat) \<and> 40 < (k + 1) * 16 \<longrightarrow>
                 output_mask (window_batch ?env ?itoks ?otoks ?amask (int (k * 16)))
                   = map (\<lambda>r. replicate (16 - (40 - k * 16)) 0 @ drop (k * 16) r) ?amask)
        \<and> (\<exists>new k. calls (snd (loglikelihood_rolling ?env ?text session0)) = calls session0 @ new
             \<and> k \<le> length ?offsets
             \<and> scored new = map (window_batch ?env ?itoks ?otoks ?amask) (take k ?offsets)
             \<and> length new = k
             \<and> (\<forall>res. fst (loglikelihood_rolling ?env ?text session0) = Inr res
                   \<longrightarrow> k = length ?offsets))"
    using main by simp
  then obtain new k where new:
      "calls (snd (loglikelihood_rolling ?env ?text session0)) = calls session0 @ new"
      "scored new = map (window_batch ?env ?itoks ?otoks ?amask) (take k ?offsets)"
      "length new = k"
      "\<forall>res. fst (loglikelihood_rolling ?env ?text session0) = Inr res \<longrightarrow> k = length ?offsets"
    by blast
  have k: "k = 3" using new(4) ok by (simp add: offs)
  have w0: "output_mask (window_batch ?env ?itoks ?otoks ?amask 0) = [replicate 16 1]"
    using main' [THEN conjunct1, rule_format, of 0] by (simp add: amask)
  have w1: "output_mask (window_batch ?env ?itoks ?otoks ?amask 16) = [replicate 16 1]"
    using main' [THEN conjunct1, rule_format, of 1] by (simp add: amask)
  have w2: "output_mask (window_batch ?env ?itoks ?otoks ?amask 32)
              = [replicate 8 0 @ replicate 8 1]"
    using main' [THEN conjunct2, THEN conjunct1, rule_format, of 2] by (simp add: amask)
  have calls0: "calls session0 = []" by (simp add: session0_def)
  have shape: "shape1 (input_ids (tokenizer ?env ?text PadLongest False int32_max)) = 40"
    unfolding enc [symmetric] by (simp add: shape1_def)
  show ?thesis
    using n(1) shape new(1,2,3) k w0 w1 w2 by (simp only: calls0 offs) simp
qed

lemma forward_loglikelihood_flag [simp]:
  "forward_loglikelihood (env\<lparr>loglikelihood_add_bos_token := f\<rparr>) = forward_loglikelihood env"
  by (rule ext)+ (auto simp: forward_loglikelihood_def Let_def split: prod.splits sum.splits)

lemma call_forward_loglikelihood_flag [simp]:
  "call_forward_loglikelihood (env\<lparr>loglikelihood_add_bos_token := f\<rparr>)
     = call_forward_loglikelihood env"
  by (rule ext)+ (auto simp: call_forward_loglikelihood_def Let_def split: prod.splits sum.splits)

lemma window_batch_flag [simp]:
  "window_batch (env\<lparr>loglikelihood_add_bos_token := f\<rparr>) = window_batch env"
  by (rule ext)+ (simp add: window_batch_def Let_def)

lemma rolling_loop_flag [simp]:
  "rolling_loop (env\<lparr>loglikelihood_add_bos_token := f\<rparr>) itoks otoks amask offsets al ag st
     = rolling_loop env itoks otoks amask offsets al ag st"
  by (induction offsets arbitrary: al ag st) (simp_all split: prod.splits sum.splits)

lemma loglikelihood_rolling_flag:
  "loglikelihood_rolling (env\<lparr>loglikelihood_add_bos_token := f\<rparr>) text st
     = loglikelihood_rolling env text st"
  by (simp add: loglikelihood_rolling_def rolling_arrays_def Let_def
        cong: sum.case_cong prod.case_cong if_cong)

text \<open>
  C4 (as amended). In \<open>loglikelihood_rolling\<close> the input mask of every window is the
  slice of the attention mask (padded with zeros up to \<open>seq_length\<close>, not shifted) at
  the positions at which the input tokens are the slice of the tokens shifted right
  behind the beginning-of-sequence token. So the first input token of the first window
  is the beginning-of-sequence token and its mask bit is the attention bit of the first
  token of the text; the last input-mask bit of the last window is the last entry of
  the attention mask; these are the batches the executor is called on; and the flag
  \<open>loglikelihood_add_bos_token\<close> has no effect on the operation.
\<close>

theorem rolling_input_mask_unshifted:
  assumes enc: "inputs = tokenizer env text PadLongest False int32_max"
    and nonempty: "input_ids inputs \<noteq> []"
    and rows: "length (attention_mask inputs) = length (input_ids inputs)"
    and ids: "\<forall>r \<in> set (input_ids inputs). length r = w"
    and masks: "\<forall>r \<in> set (attention_mask inputs). length r = w"
    and w: "0 < w"
    and n: "0 < seq_length env" "n = nat (seq_length env)"
    and T: "T = max w n"
    and otoks: "otoks = map (\<lambda>r. r @ replicate (n - w) (pad_token_id env)) (input_ids inputs)"
    and amask: "amask = map (\<lambda>r. r @ replicate (n - w) 0) (attention_mask inputs)"
    and itoks: "itoks = map (\<lambda>r. bos_token_id env # butlast r) otoks"
    and offsets: "offsets = map (\<lambda>k. int (k * n)) [0 ..< (T + n - 1) div n]"
  shows "(\<forall>k. k * n < T \<longrightarrow>
            input_mask (window_batch env itoks otoks amask (int (k * n)))
              = map (\<lambda>r. take n (drop (if (k + 1) * n \<le> T then k * n else T - n) r)) amask
          \<and> input_tokens (window_batch env itoks otoks amask (int (k * n)))
              = map (\<lambda>r. take n (drop (if (k + 1) * n \<le> T then k * n else T - n)
                                         (bos_token_id env # butlast r))) otoks)
       \<and> map hd (input_tokens (window_batch env itoks otoks amask 0))
           = map (\<lambda>r. bos_token_id env) (input_ids inputs)
       \<and> map hd (input_mask (window_batch env itoks otoks amask 0))
           = map hd (attention_mask inputs)
       \<and> (\<forall>k. k * n < T \<and> T \<le> (k + 1) * n \<longrightarrow>
            map last (input_mask (window_batch env itoks otoks amask (int (k * n))))
              = map last amask)
       \<and> (\<exists>new k. calls (snd (loglikelihood_rolling env text st)) = calls st @ new
             \<and> k \<le> length offsets
             \<and> scored new = map (window_batch env itoks otoks amask) (take k offsets)
             \<and> length new = k
             \<and> (\<forall>res. fst (loglikelihood_rolling env text st) = Inr res \<longrightarrow> k = length offsets))
       \<and> loglikelihood_rolling (env\<lparr>loglikelihood_add_bos_token := f\<rparr>) text st
           = loglikelihood_rolling env text st"
proof -
  have arrays: "rolling_arrays env text = Inr (itoks, otoks, amask)"
    using enc nonempty rows ids by (rule rolling_arrays_padded) (simp_all add: otoks amask itoks n)
  have len_o: "\<forall>r \<in> set otoks. length r = T"
    using ids by (auto simp: otoks T)
  have len_a: "\<forall>r \<in> set amask. length r = T"
    using masks by (auto simp: amask T)
  have Tpos: "0 < T" "n \<le> T" "0 < n" using n by (simp_all add: T)
  have len_i: "\<forall>r \<in> set itoks. length r = T"
    using len_o Tpos by (auto simp: itoks)
  have shape: "shape1 otoks = T"
    using nonempty len_o by (intro shape1_rows) (simp_all add: otoks)
  have sn: "seq_length env = int n" using n by simp
  have range: "py_range0 (int (shape1 otoks)) (seq_length env) = Inr offsets"
    unfolding shape offsets using n by (rule rolling_offsets)
  have normal: "window_batch env itoks otoks amask (int (k * n)) =
               \<lparr>input_tokens = map (\<lambda>r. take n (drop (k * n) r)) itoks,
                output_tokens = map (\<lambda>r. take n (drop (k * n) r)) otoks,
                input_mask = map (\<lambda>r. take n (drop (k * n) r)) amask,
                output_mask = map (\<lambda>r. take n (drop (k * n) r)) amask\<rparr>"
    if "(k + 1) * n \<le> T" for k
  proof -
    have "int (k * n) + seq_length env \<le> int (shape1 otoks)"
      using that by (simp add: shape sn del: of_nat_mult of_nat_add flip: of_nat_add)
    from window_batch_normal [OF n(1) _ this, of itoks amask] show ?thesis
      by (simp add: n(2) del: of_nat_mult)
  qed
  have last: "window_batch env itoks otoks amask (int (k * n)) =
               \<lparr>input_tokens = map (\<lambda>r. take n (drop (T - n) r)) itoks,
                output_tokens = map (drop (T - n)) otoks,
                input_mask = map (\<lambda>r. take n (drop (T - n) r)) amask,
                output_mask = map (\<lambda>r. replicate (n - (T - k * n)) 0 @ drop (k * n) r) amask\<rparr>"
    if "k * n < T \<and> T < (k + 1) * n" for k
  proof -
    have a: "int (k * n) < int T" using that by (simp del: of_nat_mult)
    have b: "int T < int (k * n) + seq_length env"
      using that by (simp add: sn del: of_nat_mult of_nat_add flip: of_nat_add)
    have c: "nat (seq_length env) \<le> T" by (simp add: T n(2))
    from window_batch_last [OF n(1) _ a b shape c len_a, of itoks] show ?thesis
      using len_i len_o len_a Tpos by (simp add: n(2) del: of_nat_mult cong: map_cong)
  qed
  have slices: "input_mask (window_batch env itoks otoks amask (int (k * n)))
              = map (\<lambda>r. take n (drop (if (k + 1) * n \<le> T then k * n else T - n) r)) amask
          \<and> input_tokens (window_batch env itoks otoks amask (int (k * n)))
              = map (\<lambda>r. take n (drop (if (k + 1) * n \<le> T then k * n else T - n)
                                         (bos_token_id env # butlast r))) otoks"
    if "k * n < T" for k
  proof (cases "(k + 1) * n \<le> T")
    case True
    from normal [OF this] True show ?thesis by (simp add: itoks comp_def del: of_nat_mult)
  next
    case False
    with that have "k * n < T \<and> T < (k + 1) * n" by simp
    from last [OF this] False show ?thesis by (simp add: itoks comp_def del: of_nat_mult)
  qed
  have first: "window_batch env itoks otoks amask 0 =
               \<lparr>input_tokens = map (take n) itoks, output_tokens = map (take n) otoks,
                input_mask = map (take n) amask, output_mask = map (take n) amask\<rparr>"
    using normal [of 0] Tpos by simp
  have hd_t: "map hd (input_tokens (window_batch env itoks otoks amask 0))
           = map (\<lambda>r. bos_token_id env) (input_ids inputs)"
    using Tpos by (simp only: first) (simp add: itoks otoks comp_def take_Cons')
  have hd_m: "map hd (input_mask (window_batch env itoks otoks amask 0))
           = map hd (attention_mask inputs)"
  proof -
    have "hd (take n (r @ replicate (n - w) 0)) = hd r" if "r \<in> set (attention_mask inputs)" for r
    proof -
      have "r \<noteq> []" using masks that w by auto
      then show ?thesis using Tpos by (cases r) (simp_all add: take_Cons')
    qed
    then show ?thesis by (simp only: first) (simp add: amask comp_def)
  qed
  have last_m: "map last (input_mask (window_batch env itoks otoks amask (int (k * n))))
              = map last amask"
    if k: "k * n < T \<and> T \<le> (k + 1) * n" for k
  proof -
    define a where "a = (if (k + 1) * n \<le> T then k * n else T - n)"
    have a: "T - a \<le> n" "a < T"
      using k Tpos by (auto simp: a_def algebra_simps)
    have eq: "last (take n (drop a r)) = last r" if "r \<in> set amask" for r
    proof -
      have len: "length r = T" using len_a that by blast
      have "take n (drop a r) = drop a r" using a by (simp add: len)
      then show ?thesis using a by (simp add: last_drop len)
    qed
    from k have "k * n < T" by simp
    from slices [OF this]
    have "input_mask (window_batch env itoks otoks amask (int (k * n)))
            = map (\<lambda>r. take n (drop a r)) amask"
      unfolding a_def by blast
    then show ?thesis using eq by (simp add: comp_def)
  qed
  from loglikelihood_rolling_calls [OF arrays range, of st]
  have log: "\<exists>new k. calls (snd (loglikelihood_rolling env text st)) = calls st @ new
             \<and> k \<le> length offsets
             \<and> scored new = map (window_batch env itoks otoks amask) (take k offsets)
             \<and> length new = k
             \<and> (\<forall>res. fst (loglikelihood_rolling env text st) = Inr res \<longrightarrow> k = length offsets)"
    by blast
  have flag: "loglikelihood_rolling (env\<lparr>loglikelihood_add_bos_token := f\<rparr>) text st
                = loglikelihood_rolling env text st"
    by (rule loglikelihood_rolling_flag)
  show ?thesis
    using slices hd_t hd_m last_m log flag by blast
qed

theorem rolling_input_mask_unshifted_witness:
  "0 < seq_length (toy_env 2 4 False (constant_model 97) (\<lambda>r. []))
   \<and> tokenizer (toy_env 2 4 False (constant_model 97) (\<lambda>r. [])) [''abcdef''] PadLongest False int32_max
       = \<lparr>input_ids = [[97, 98, 99, 100, 101, 102]], attention_mask = [[1, 1, 1, 1, 1, 1]]\<rparr>
   \<and> map hd (input_tokens (window_batch (toy_env 2 4 False (constant_model 97) (\<lambda>r. []))
         [[2, 97, 98, 99, 100, 101]] [[97, 98, 99, 100, 101, 102]] [[1, 1, 1, 1, 1, 1]] 0)) = [2]
   \<and> map hd (input_mask (window_batch (toy_env 2 4 False (constant_model 97) (\<lambda>r. []))
         [[2, 97, 98, 99, 100, 101]] [[97, 98, 99, 100, 101, 102]] [[1, 1, 1, 1, 1, 1]] 0)) = [1]
   \<and> map last (input_mask (window_batch (toy_env 2 4 False (constant_model 97) (\<lambda>r. []))
         [[2, 97, 98, 99, 100, 101]] [[97, 98, 99, 100, 101, 102]] [[1, 1, 1, 1, 1, 1]] 4)) = [1]
   \<and> loglikelihood_rolling
         ((toy_env 2 4 False (constant_model 97) (\<lambda>r. []))\<lparr>loglikelihood_add_bos_token := True\<rparr>)
         [''abcdef''] session0
       = loglikelihood_rolling (toy_env 2 4 False (constant_model 97) (\<lambda>r. [])) [''abcdef''] session0"
proof -
  let ?env = "toy_env 2 4 False (constant_model 97) (\<lambda>r. [])"
  let ?inputs = "\<lparr>input_ids = [[97, 98, 99, 100, 101, 102]], attention_mask = [[1, 1, 1, 1, 1, 1]]\<rparr>"
  have enc: "?inputs = tokenizer ?env [''abcdef''] PadLongest False int32_max"
    by code_simp
  have n: "0 < seq_length ?env" "(4::nat) = nat (seq_length ?env)"
    by (simp_all add: toy_env_def)
  have ids: "bos_token_id ?env = 2" "pad_token_id ?env = 1"
    by (simp_all add: toy_env_def)
  note main = rolling_input_mask_unshifted [where st = session0 and w = 6 and T = 6 and f = True,
      OF enc _ _ _ _ _ n _ refl refl refl refl]
  have main': "map hd (input_tokens (window_batch ?env
                  [[2, 97, 98, 99, 100, 101]] [[97, 98, 99, 100, 101, 102]] [[1, 1, 1, 1, 1, 1]] 0)) = [2]
       \<and> map hd (input_mask (window_batch ?env
                  [[2, 97, 98, 99, 100, 101]] [[97, 98, 99, 100, 101, 102]] [[1, 1, 1, 1, 1, 1]] 0)) = [1]
       \<and> (\<forall>k. k * 4 < (6::nat) \<and> 6 \<le> (k + 1) * 4 \<longrightarrow>
            map last (input_mask (window_batch ?env
                  [[2, 97, 98, 99, 100, 101]] [[97, 98, 99, 100, 101, 102]] [[1, 1, 1, 1, 1, 1]]
                  (int (k * 4)))) = [1])
       \<and> loglikelihood_rolling (?env\<lparr>loglikelihood_add_bos_token := True\<rparr>) [''abcdef''] session0
           = loglikelihood_rolling ?env [''abcdef''] session0"
    using main by (simp add: ids)
  then have "map last (input_mask (window_batch ?env
                  [[2, 97, 98, 99, 100, 101]] [[97, 98, 99, 100, 101, 102]] [[1, 1, 1, 1, 1, 1]]
                  (int (1 * 4)))) = [1]"
    by (elim conjE allE [of _ 1]) simp
  with main' n(1) enc show ?thesis by simp
qed

text \<open>
  With \<open>seq_length = 4\<close> and the texts \<open>abcd\<close> and \<open>ab\<close> there is one window, and its
  input mask is the whole attention mask: the last column of the input mask holds the
  attention bits of the last tokens (1 for the text of four tokens, 0 for the padded one).
\<close>

theorem rolling_input_mask_last_bit_counterexample:
  "attention_mask (tokenizer (toy_env 2 4 False (constant_model 97) (\<lambda>r. []))
       [''abcd'', ''ab''] PadLongest False int32_max) = [[1, 1, 1, 1], [1, 1, 0, 0]]
   \<and> map input_mask (scored (calls (snd (loglikelihood_rolling
         (toy_env 2 4 False (constant_model 97) (\<lambda>r. [])) [''abcd'', ''ab''] session0))))
       = [[[1, 1, 1, 1], [1, 1, 0, 0]]]
   \<and> map (map last \<circ> input_mask) (scored (calls (snd (loglikelihood_rolling
         (toy_env 2 4 False (constant_model 97) (\<lambda>r. [])) [''abcd'', ''ab''] session0))))
       = [map last (attention_mask (tokenizer (toy_env 2 4 False (constant_model 97) (\<lambda>r. []))
            [''abcd'', ''ab''] PadLongest False int32_max))]"
  by code_simp

lemma take_all_rows: "\<forall>r \<in> set a. length r = n \<Longrightarrow> map (\<lambda>r. take n (drop 0 r)) a = a"
  by (induction a) simp_all

text \<open>
  C1 (as amended). For texts whose tokenization has at most \<open>seq_length\<close> columns,
  \<open>loglikelihood_rolling\<close> makes one call to the executor, on the tokens and the
  attention mask padded on the right up to \<open>seq_length\<close> (the mask being input mask and
  output mask), and returns \<open>0.0\<close> plus the loglikelihoods and the greedy flags of that
  call. \<open>loglikelihood\<close> returns the values of its one call unchanged, so the two agree
  (where \<open>0.0 + x = x\<close>) whenever \<open>loglikelihood\<close> builds the same batch and starts from
  the same RNG state.
\<close>

theorem rolling_single_window:
  assumes enc: "inputs = tokenizer env text PadLongest False int32_max"
    and nonempty: "input_ids inputs \<noteq> []"
    and rows: "length (attention_mask inputs) = length (input_ids inputs)"
    and ids: "\<forall>r \<in> set (input_ids inputs). length r = w"
    and masks: "\<forall>r \<in> set (attention_mask inputs). length r = w"
    and n: "0 < seq_length env" "n = nat (seq_length env)"
    and short: "w \<le> n"
    and otoks: "otoks = map (\<lambda>r. r @ replicate (n - w) (pad_token_id env)) (input_ids inputs)"
    and amask: "amask = map (\<lambda>r. r @ replicate (n - w) 0) (attention_mask inputs)"
    and batch: "batch = \<lparr>input_tokens = map (\<lambda>r. bos_token_id env # butlast r) otoks,
                         output_tokens = otoks, input_mask = amask, output_mask = amask\<rparr>"
  shows "loglikelihood_rolling env text st =
           (case call_forward_loglikelihood env batch st of
              (Inl e, st') \<Rightarrow> (Inl e, st')
            | (Inr (ll, is_greedy), st') \<Rightarrow>
                (Inr (Vector (map (fadd env (fzero env)) ll), Vector is_greedy), st'))
       \<and> (loglikelihood_batch env prefix_text text' = Inr batch \<and> (\<forall>x. fadd env (fzero env) x = x)
            \<longrightarrow> loglikelihood_rolling env text st =
                (case loglikelihood env prefix_text text' st of
                   (Inl e, st') \<Rightarrow> (Inl e, st')
                 | (Inr (ll, is_greedy), st') \<Rightarrow> (Inr (Vector ll, Vector is_greedy), st')))"
proof -
  define itoks where "itoks = map (\<lambda>r. bos_token_id env # butlast r) otoks"
  have arrays: "rolling_arrays env text = Inr (itoks, otoks, amask)"
    using enc nonempty rows ids by (rule rolling_arrays_padded) (simp_all add: otoks amask itoks_def n)
  have len_o: "\<forall>r \<in> set otoks. length r = n"
    using ids short by (auto simp: otoks)
  have len_a: "\<forall>r \<in> set amask. length r = n"
    using masks short by (auto simp: amask)
  have npos: "0 < n" using n by simp
  have len_i: "\<forall>r \<in> set itoks. length r = n"
    using len_o npos by (auto simp: itoks_def)
  have shape: "shape1 otoks = n"
    using nonempty len_o by (intro shape1_rows) (simp_all add: otoks)
  have "py_range0 (int (shape1 otoks)) (seq_length env)
          = Inr (map (\<lambda>k. int (k * n)) [0 ..< (n + n - 1) div n])"
    unfolding shape using n by (rule rolling_offsets)
  moreover have "(n + n - 1) div n = 1"
  proof -
    have "n + n - 1 = n + (n - 1)" using npos by simp
    moreover have "(n + (n - 1)) div n = (n - 1) div n + 1"
      using npos by (simp only: div_add_self1)
    moreover have "(n - 1) div n = 0" using npos by simp
    ultimately show ?thesis by simp
  qed
  ultimately have range: "py_range0 (int (shape1 otoks)) (seq_length env) = Inr [0]"
    by simp
  have window: "window_batch env itoks otoks amask 0 = batch"
    using window_batch_normal [OF n(1), of 0 otoks itoks amask] n(2) shape
      take_all_rows [OF len_o] take_all_rows [OF len_a] take_all_rows [OF len_i]
    by (simp add: batch itoks_def)
  have one: "loglikelihood_rolling env text st =
           (case call_forward_loglikelihood env batch st of
              (Inl e, st') \<Rightarrow> (Inl e, st')
            | (Inr (ll, is_greedy), st') \<Rightarrow>
                (Inr (Vector (map (fadd env (fzero env)) ll), Vector is_greedy), st'))"
    by (simp add: loglikelihood_rolling_def arrays range window np_iadd_def np_logical_and_def
          split: prod.splits sum.splits)
  have two: "loglikelihood_rolling env text st =
                (case loglikelihood env prefix_text text' st of
                   (Inl e, st') \<Rightarrow> (Inl e, st')
                 | (Inr (ll, is_greedy), st') \<Rightarrow> (Inr (Vector ll, Vector is_greedy), st'))"
    if "loglikelihood_batch env prefix_text text' = Inr batch" "\<forall>x. fadd env (fzero env) x = x"
  proof -
    have "map (fadd env (fzero env)) ll = ll" for ll
      using that(2) by (induction ll) simp_all
    then show ?thesis
      using that(1) by (simp add: one loglikelihood_def split: prod.splits sum.splits)
  qed
  show ?thesis using one two by blast
qed

theorem rolling_single_window_witness:
  "0 < seq_length (toy_env 0 4 True (constant_model 97) (\<lambda>r. []))
   \<and> loglikelihood_batch (toy_env 0 4 True (constant_model 97) (\<lambda>r. [])) [[]] [''abcd'']
       = Inr \<lparr>input_tokens = [[2, 97, 98, 99]], output_tokens = [[97, 98, 99, 100]],
              input_mask = [[1, 1, 1, 1]], output_mask = [[1, 1, 1, 1]]\<rparr>
   \<and> loglikelihood_rolling (toy_env 0 4 True (constant_model 97) (\<lambda>r. [])) [''abcd''] session0
       = (case loglikelihood (toy_env 0 4 True (constant_model 97) (\<lambda>r. [])) [[]] [''abcd''] session0 of
            (Inl e, st') \<Rightarrow> (Inl e, st')
          | (Inr (ll, is_greedy), st') \<Rightarrow> (Inr (Vector ll, Vector is_greedy), st'))
   \<and> fst (loglikelihood (toy_env 0 4 True (constant_model 97) (\<lambda>r. [])) [[]] [''abcd''] session0)
       = Inr ([- 3], [False])"
proof -
  let ?env = "toy_env 0 4 True (constant_model 97) (\<lambda>r. [])"
  let ?inputs = "\<lparr>input_ids = [[97, 98, 99, 100]], attention_mask = [[1, 1, 1, 1]]\<rparr>"
  let ?batch = "\<lparr>input_tokens = [[2, 97, 98, 99]], output_tokens = [[97, 98, 99, 100]],
                 input_mask = [[1, 1, 1, 1]], output_mask = [[1, 1, 1, 1]]\<rparr>"
  have enc: "?inputs = tokenizer ?env [''abcd''] PadLongest False int32_max"
    by code_simp
  have n: "0 < seq_length ?env" "(4::nat) = nat (seq_length ?env)"
    by (simp_all add: toy_env_def)
  have same: "loglikelihood_batch ?env [[]] [''abcd''] = Inr ?batch"
    by code_simp
  have float: "\<forall>x. fadd ?env (fzero ?env) x = x"
    by (simp add: toy_env_def)
  have val: "fst (loglikelihood ?env [[]] [''abcd''] session0) = Inr ([- 3], [False])"
    by code_simp
  have batch: "?batch =
      \<lparr>input_tokens = map (\<lambda>r. bos_token_id ?env # butlast r)
           (map (\<lambda>r. r @ replicate (4 - 4) (pad_token_id ?env)) (input_ids ?inputs)),
       output_tokens = map (\<lambda>r. r @ replicate (4 - 4) (pad_token_id ?env)) (input_ids ?inputs),
       input_mask = map (\<lambda>r. r @ replicate (4 - 4) 0) (attention_mask ?inputs),
       output_mask = map (\<lambda>r. r @ replicate (4 - 4) 0) (attention_mask ?inputs)\<rparr>"
    by (simp add: toy_env_def)
  have "loglikelihood_batch ?env [[]] [''abcd''] = Inr ?batch
          \<and> (\<forall>x. fadd ?env (fzero ?env) x = x)
        \<longrightarrow> loglikelihood_rolling ?env [''abcd''] session0
           = (case loglikelihood ?env [[]] [''abcd''] session0 of
                (Inl e, st') \<Rightarrow> (Inl e, st')
              | (Inr (ll, is_greedy), st') \<Rightarrow> (Inr (Vector ll, Vector is_greedy), st'))"
    by (rule rolling_single_window [where st = session0 and w = 4 and prefix_text = "[[]]"
      and text' = "[''abcd'']", OF enc _ _ _ _ n _ refl refl batch, THEN conjunct2]) simp_all
  with same float
  have "loglikelihood_rolling ?env [''abcd''] session0
       = (case loglikelihood ?env [[]] [''abcd''] session0 of
            (Inl e, st') \<Rightarrow> (Inl e, st')
          | (Inr (ll, is_greedy), st') \<Rightarrow> (Inr (Vector ll, Vector is_greedy), st'))"
    by blast
  with n(1) same val show ?thesis by simp
qed

text \<open>
  With \<open>input_length = 2\<close>, \<open>seq_length = 4\<close> and a module that predicts the token of
  \<open>a\<close> everywhere, the four tokens of \<open>aabb\<close> and of \<open>bbaa\<close> fit in one window.
  \<open>loglikelihood\<close> scores the two tokens \<open>aa\<close> of the continuation (truncated to
  \<open>seq_length - input_length\<close> tokens in the first case, behind the prefix \<open>bb\<close> in the
  second): loglikelihood 0, greedy. \<open>loglikelihood_rolling\<close> scores the four tokens:
  loglikelihood -2, not greedy.
\<close>

theorem rolling_single_window_agreement_counterexample:
  "fst (loglikelihood (toy_env 2 4 False (constant_model 97) (\<lambda>r. [])) [[]] [''aabb''] session0)
     = Inr ([0], [True])
   \<and> fst (loglikelihood_rolling (toy_env 2 4 False (constant_model 97) (\<lambda>r. [])) [''aabb''] session0)
     = Inr (Vector [- 2], Vector [False])
   \<and> fst (loglikelihood (toy_env 2 4 False (constant_model 97) (\<lambda>r. [])) [''bb''] [''aa''] session0)
     = Inr ([0], [True])
   \<and> fst (loglikelihood_rolling (toy_env 2 4 False (constant_model 97) (\<lambda>r. [])) [''bbaa''] session0)
     = Inr (Vector [- 2], Vector [False])
   \<and> map output_mask (scored (calls (snd
         (loglikelihood (toy_env 2 4 False (constant_model 97) (\<lambda>r. [])) [''bb''] [''aa''] session0))))
     = [[[0, 0, 1, 1]]]
   \<and> map output_mask (scored (calls (snd
         (loglikelihood_rolling (toy_env 2 4 False (constant_model 97) (\<lambda>r. [])) [''bbaa''] session0))))
     = [[[1, 1, 1, 1]]]"
  by code_simp

lemma startswith_iff: "startswith s t \<longleftrightarrow> (\<exists>r. t = s @ r)"
  by (induction s t rule: startswith.induct) auto

lemma find_sub_Some:
  "find_sub s t = Some p \<Longrightarrow>
     p \<le> length t \<and> startswith s (drop p t) \<and> (\<forall>q < p. \<not> startswith s (drop q t))"
proof (induction t arbitrary: p)
  case Nil
  then show ?case by (auto split: if_splits)
next
  case (Cons c t)
  show ?case
  proof (cases "startswith s (c # t)")
    case True
    with Cons.prems show ?thesis by simp
  next
    case False
    with Cons.prems obtain p' where p': "find_sub s t = Some p'" "p = Suc p'"
      by auto
    from Cons.IH [OF p'(1)] False show ?thesis
      by (auto simp: p'(2) less_Suc_eq_0_disj)
  qed
qed

lemma find_sub_None:
  "find_sub s t = None \<Longrightarrow> q \<le> length t \<Longrightarrow> \<not> startswith s (drop q t)"
proof (induction t arbitrary: q)
  case Nil
  then show ?case by (cases s) (auto split: if_splits)
next
  case (Cons c t)
  then show ?case
    by (cases q) (auto split: if_splits)
qed

lemma py_in_iff: "py_in s t \<longleftrightarrow> (\<exists>a b. t = a @ s @ b)"
proof
  assume "py_in s t"
  then obtain p where p: "find_sub s t = Some p" by (auto simp: py_in_def)
  from find_sub_Some [OF this] obtain r where "drop p t = s @ r"
    by (auto simp: startswith_iff)
  then have "t = take p t @ s @ r" by (metis append_take_drop_id)
  then show "\<exists>a b. t = a @ s @ b" by blast
next
  assume "\<exists>a b. t = a @ s @ b"
  then obtain a b where t: "t = a @ s @ b" by blast
  show "py_in s t"
  proof (rule ccontr)
    assume "\<not> py_in s t"
    then have "find_sub s t = None" by (simp add: py_in_def)
    from find_sub_None [OF this, of "length a"] show False
      by (simp add: t startswith_iff)
  qed
qed

lemma split_first_cut:
  assumes "py_in s t" and "split_first s t = Inr r"
  shows "s \<noteq> [] \<and> find_sub s t = Some (length r) \<and> (\<exists>b. t = r @ s @ b) \<and> \<not> py_in s r"
proof -
  from assms(1) obtain p where p: "find_sub s t = Some p" by (auto simp: py_in_def)
  from assms(2) have s: "s \<noteq> []" and r: "r = take p t"
    by (auto simp: split_first_def p split: if_splits)
  from find_sub_Some [OF p] have le: "p \<le> length t" and at: "startswith s (drop p t)"
    and least: "\<forall>q < p. \<not> startswith s (drop q t)" by auto
  have len: "length r = p" using le by (simp add: r)
  from at obtain b where "drop p t = s @ b" by (auto simp: startswith_iff)
  then have t: "t = r @ s @ b" by (metis r append_take_drop_id)
  have "\<not> py_in s r"
  proof
    assume "py_in s r"
    then obtain a c where rc: "r = a @ s @ c" by (auto simp: py_in_iff)
    then have "length a < p" using s len by (cases s) auto
    moreover have "startswith s (drop (length a) t)"
      by (simp add: t rc startswith_iff)
    ultimately show False using least by blast
  qed
  with s p len t show ?thesis by blast
qed

lemma py_in_prefix: "py_in s r \<Longrightarrow> py_in s (r @ b)"
  by (auto simp: py_in_iff) (metis append.assoc)

lemma stop_scan_cut:
  assumes "stop_scan ut t d0 = Inr (r, d)"
  shows "((r = t \<and> d = d0) \<or> (d \<and> (\<exists>s \<in> set ut. s \<noteq> [] \<and> (\<exists>b. t = r @ s @ b))))
       \<and> (\<forall>s \<in> set ut. \<not> py_in s r)"
  using assms
proof (induction ut arbitrary: t d0)
  case Nil
  then show ?case by simp
next
  case (Cons s ut)
  show ?case
  proof (cases "py_in s t")
    case True
    with Cons.prems obtain t' where cut: "split_first s t = Inr t'"
      and rest: "stop_scan ut t' True = Inr (r, d)"
      by (cases "split_first s t") auto
    from split_first_cut [OF True cut] obtain b where
      s: "s \<noteq> []" and t: "t = t' @ s @ b" and notin: "\<not> py_in s t'" by blast
    from Cons.IH [OF rest] have
      IH: "(r = t' \<and> d) \<or> (d \<and> (\<exists>x \<in> set ut. x \<noteq> [] \<and> (\<exists>c. t' = r @ x @ c)))"
          "\<forall>x \<in> set ut. \<not> py_in x r"
      by auto
    from IH(1) have d: d by blast
    from IH(1) have followed: "\<exists>x \<in> set (s # ut). x \<noteq> [] \<and> (\<exists>c. t = r @ x @ c)"
    proof
      assume "r = t' \<and> d"
      then show ?thesis using s t by auto
    next
      assume "d \<and> (\<exists>x \<in> set ut. x \<noteq> [] \<and> (\<exists>c. t' = r @ x @ c))"
      then obtain x c where x: "x \<in> set ut" "x \<noteq> []" "t' = r @ x @ c" by blast
      then have "t = r @ x @ (c @ s @ b)" by (simp add: t)
      with x show ?thesis by auto
    qed
    from IH(1) obtain c where "t' = r @ c" by auto
    then have "\<not> py_in s r" using notin py_in_prefix [of s r c] by auto
    with IH(2) d followed show ?thesis by auto
  next
    case False
    with Cons.prems have rest: "stop_scan ut t d0 = Inr (r, d)" by simp
    from Cons.IH [OF rest] have
      IH: "(r = t \<and> d = d0) \<or> (d \<and> (\<exists>x \<in> set ut. x \<noteq> [] \<and> (\<exists>c. t = r @ x @ c)))"
          "\<forall>x \<in> set ut. \<not> py_in x r"
      by auto
    from IH(1) obtain c where "t = r @ c" by auto
    then have "\<not> py_in s r" using False py_in_prefix [of s r c] by auto
    with IH show ?thesis by auto
  qed
qed

lemma stop_scan_single:
  assumes "stop_scan [s] t False = Inr (r, d)"
  shows "(d \<longrightarrow> s \<noteq> [] \<and> find_sub s t = Some (length r) \<and> (\<exists>b. t = r @ s @ b))
       \<and> (\<not> d \<longrightarrow> r = t \<and> find_sub s t = None)"
proof (cases "py_in s t")
  case True
  with assms obtain t' where cut: "split_first s t = Inr t'" and "r = t'" d
    by (cases "split_first s t") auto
  with split_first_cut [OF True cut] show ?thesis by blast
next
  case False
  with assms show ?thesis by (simp add: py_in_def)
qed

lemma stop_scan_none: "stop_scan ut t False = Inr (r, False) \<Longrightarrow> r = t"
  using stop_scan_cut [of ut t False r False] by auto

lemma stop_scan_empty [simp]: "stop_scan [] t d = Inr (t, d)"
  by simp

lemma call_forward_greedy_generate_ok:
  assumes "call_forward_greedy_generate env batch st = (Inr out, st')"
  shows "\<exists>rng'. forward_greedy_generate env (sharded_rng st) batch = Inr (out, rng')
           \<and> sharded_rng st' = rng'
           \<and> calls st' = calls st @ [GreedyGenerate (sharded_rng st) batch (Inr (out, rng'))]"
  using assms
  by (auto simp: call_forward_greedy_generate_def Let_def split: sum.splits prod.splits)

lemma call_forward_greedy_generate_failed:
  assumes "call_forward_greedy_generate env batch st = (Inl e, st')"
  shows "forward_greedy_generate env (sharded_rng st) batch = Inl e
           \<and> sharded_rng st' = sharded_rng st
           \<and> calls st' = calls st @ [GreedyGenerate (sharded_rng st) batch (Inl e)]"
  using assms
  by (auto simp: call_forward_greedy_generate_def Let_def split: sum.splits prod.splits)

lemma generated_text_Cons [simp]:
  "generated_text env (GreedyGenerate rng batch (Inr (out, rng')) # cs)
     = (case batch_decode env out of [] \<Rightarrow> [] | t # _ \<Rightarrow> t) @ generated_text env cs"
  by (simp add: generated_text_def)

lemma generated_length_Cons [simp]:
  "generated_length (GreedyGenerate rng batch (Inr (out, rng')) # cs)
     = int (shape1 out) + generated_length cs"
  by (simp add: generated_length_def)

lemma generated_Nil [simp]: "generated_text env [] = []" "generated_length [] = 0"
  by (simp_all add: generated_text_def generated_length_def)

lemma greedy_loop_sound:
  assumes "greedy_loop env ut max_length pf total_length total_generated st = Some y"
  shows "\<exists>new. calls (snd y) = calls st @ new
          \<and> (\<forall>r. fst y = Inr r \<longrightarrow>
                (new = [] \<and> r = total_generated \<and> max_length \<le> total_length)
              \<or> (new \<noteq> [] \<and> total_length < max_length
                  \<and> length (greedy_outputs new) = length new
                  \<and> total_length + generated_length (butlast new) < max_length
                  \<and> (\<exists>d. stop_scan ut (total_generated @ generated_text env new) False = Inr (r, d)
                        \<and> (d \<or> max_length \<le> total_length + generated_length new))))"
  using assms
proof (induction env ut max_length pf total_length total_generated st y
        rule: greedy_loop.raw_induct [rotated 1, consumes 1, case_names 1])
  case (1 loop env ut max_length pf total_length total_generated st y)
  show ?case
  proof (cases "total_length < max_length")
    case False
    with 1(2) have "y = (Inr total_generated, st)" by simp
    with False show ?thesis by simp
  next
    case True
    show ?thesis
    proof (cases "greedy_batch env pf")
      case (Inl e)
      with True 1(2) have "y = (Inl e, st)" by simp
      then show ?thesis by simp
    next
      case (Inr batch)
      obtain res st' where call: "call_forward_greedy_generate env batch st = (res, st')"
        by (cases "call_forward_greedy_generate env batch st")
      show ?thesis
      proof (cases res)
        case (Inl e)
        with True Inr call 1(2) have y: "y = (Inl e, st')" by simp
        from call_forward_greedy_generate_failed [OF call [unfolded Inl]]
        show ?thesis by (simp add: y)
      next
        case out: (Inr out)
        from call_forward_greedy_generate_ok [OF call [unfolded out]] obtain rng' where
          st': "calls st' = calls st @ [GreedyGenerate (sharded_rng st) batch (Inr (out, rng'))]"
          by blast
        let ?c = "GreedyGenerate (sharded_rng st) batch (Inr (out, rng'))"
        show ?thesis
        proof (cases "batch_decode env out")
          case Nil
          with True Inr call out 1(2) have y: "y = (Inl IndexError, st')" by simp
          show ?thesis by (simp add: y st')
        next
          case (Cons output_text others)
          show ?thesis
          proof (cases "stop_scan ut (total_generated @ output_text) False")
            case (Inl e)
            with True Inr call out Cons 1(2) have y: "y = (Inl e, st')" by simp
            show ?thesis by (simp add: y st')
          next
            case scan: (Inr td)
            obtain t d where td: "td = (t, d)" by (cases td)
            show ?thesis
            proof (cases d)
              case True
              with \<open>total_length < max_length\<close> Inr call out Cons scan td 1(2)
              have y: "y = (Inr t, st')" by simp
              have "stop_scan ut (total_generated @ generated_text env [?c]) False = Inr (t, True)"
                using scan td True by (simp add: Cons)
              then show ?thesis
                using \<open>total_length < max_length\<close>
                by (intro exI [of _ "[?c]"]) (auto simp: y st')
            next
              case False
              with \<open>total_length < max_length\<close> Inr call out Cons scan td 1(2)
              have rec: "loop env ut max_length (pf @ output_text)
                           (total_length + int (shape1 out)) t st' = Some y"
                by simp
              have t: "t = total_generated @ output_text"
                using scan td False by (intro stop_scan_none [of ut _ t]) simp
              from 1(1) [OF rec] obtain new where
                new: "calls (snd y) = calls st' @ new"
                and post: "\<forall>r. fst y = Inr r \<longrightarrow>
                    (new = [] \<and> r = t \<and> max_length \<le> total_length + int (shape1 out))
                  \<or> (new \<noteq> [] \<and> total_length + int (shape1 out) < max_length
                      \<and> length (greedy_outputs new) = length new
                      \<and> total_length + int (shape1 out) + generated_length (butlast new)
                            < max_length
                      \<and> (\<exists>d. stop_scan ut (t @ generated_text env new) False = Inr (r, d)
                            \<and> (d \<or> max_length
                                   \<le> total_length + int (shape1 out) + generated_length new)))"
                by blast
              have one: "stop_scan ut (total_generated @ generated_text env [?c]) False
                            = Inr (t, False)"
                using scan td False by (simp add: Cons)
              show ?thesis
              proof (intro exI [of _ "?c # new"] conjI allI impI)
                show "calls (snd y) = calls st @ ?c # new" by (simp add: new st')
              next
                fix r assume r: "fst y = Inr r"
                from post r consider
                    (stop) "new = []" "r = t" "max_length \<le> total_length + int (shape1 out)"
                  | (more) "new \<noteq> []" "total_length + int (shape1 out) < max_length"
                      "length (greedy_outputs new) = length new"
                      "total_length + int (shape1 out) + generated_length (butlast new) < max_length"
                      "\<exists>d. stop_scan ut (t @ generated_text env new) False = Inr (r, d)
                            \<and> (d \<or> max_length
                                   \<le> total_length + int (shape1 out) + generated_length new)"
                  by blast
                then show "(?c # new = [] \<and> r = total_generated \<and> max_length \<le> total_length)
                  \<or> (?c # new \<noteq> [] \<and> total_length < max_length
                      \<and> length (greedy_outputs (?c # new)) = length (?c # new)
                      \<and> total_length + generated_length (butlast (?c # new)) < max_length
                      \<and> (\<exists>d. stop_scan ut (total_generated @ generated_text env (?c # new)) False
                                = Inr (r, d)
                            \<and> (d \<or> max_length \<le> total_length + generated_length (?c # new))))"
                proof cases
                  case stop
                  then show ?thesis
                    using one \<open>total_length < max_length\<close> by (auto simp: Cons)
                next
                  case more
                  then show ?thesis
                    using \<open>total_length < max_length\<close> by (simp add: Cons t add.assoc)
                qed
              qed
            qed
          qed
        qed
      qed
    qed
  qed
qed

lemma ceil_div_step:
  fixes x L :: int
  assumes "0 < L" and "0 < x"
  shows "Suc (nat ((x - L + L - 1) div L)) = nat ((x + L - 1) div L)"
proof -
  have "(x + L - 1) div L = (x - 1) div L + 1"
    using assms by (metis add.commute add_diff_eq div_add_self1 less_int_code(1) less_le_not_le)
  moreover have "0 \<le> (x - 1) div L" using assms by (simp add: pos_imp_zdiv_nonneg_iff)
  ultimately show ?thesis by simp
qed

lemma greedy_loop_terminates:
  assumes L: "0 < L"
    and per_call: "\<forall>pf b rng out rng'. greedy_batch env pf = Inr b \<longrightarrow>
                     forward_greedy_generate env rng b = Inr (out, rng') \<longrightarrow> int (shape1 out) = L"
  shows "\<exists>y new. greedy_loop env ut max_length pf total_length total_generated st = Some y
           \<and> calls (snd y) = calls st @ new
           \<and> length new \<le> nat ((max_length - total_length + L - 1) div L)"
proof (induction "nat (max_length - total_length)" arbitrary: pf total_length total_generated st
         rule: less_induct)
  case less
  show ?case
  proof (cases "total_length < max_length")
    case False
    then have "greedy_loop env ut max_length pf total_length total_generated st
                 = Some (Inr total_generated, st)"
      by (subst greedy_loop.simps) simp
    then show ?thesis by simp
  next
    case True
    then have pos: "0 < max_length - total_length" by simp
    have one: "Suc 0 \<le> nat ((max_length - total_length + L - 1) div L)"
    proof -
      have "L \<le> max_length - total_length + L - 1" using pos by simp
      then have "L div L \<le> (max_length - total_length + L - 1) div L"
        using L by (intro zdiv_mono1) simp_all
      then have "1 \<le> (max_length - total_length + L - 1) div L"
        using L by simp
      then show ?thesis by simp
    qed
    show ?thesis
    proof (cases "greedy_batch env pf")
      case (Inl e)
      with True have "greedy_loop env ut max_length pf total_length total_generated st
                 = Some (Inl e, st)"
        by (subst greedy_loop.simps) simp
      then show ?thesis by simp
    next
      case (Inr batch)
      obtain res st' where call: "call_forward_greedy_generate env batch st = (res, st')"
        by (cases "call_forward_greedy_generate env batch st")
      show ?thesis
      proof (cases res)
        case (Inl e)
        with True Inr call
        have "greedy_loop env ut max_length pf total_length total_generated st = Some (Inl e, st')"
          by (subst greedy_loop.simps) simp
        with call_forward_greedy_generate_failed [OF call [unfolded Inl]] one
        show ?thesis by simp
      next
        case out: (Inr out)
        from call_forward_greedy_generate_ok [OF call [unfolded out]] obtain rng' where
          fwd: "forward_greedy_generate env (sharded_rng st) batch = Inr (out, rng')"
          and st': "calls st' = calls st @ [GreedyGenerate (sharded_rng st) batch (Inr (out, rng'))]"
          by blast
        have len: "int (shape1 out) = L" using per_call Inr fwd by blast
        have unfold: "greedy_loop env ut max_length pf total_length total_generated st =
            (case batch_decode env out of
               [] \<Rightarrow> Some (Inl IndexError, st')
             | output_text # _ \<Rightarrow>
                 (case stop_scan ut (total_generated @ output_text) False of
                    Inl e \<Rightarrow> Some (Inl e, st')
                  | Inr (t, done) \<Rightarrow>
                      if done then Some (Inr t, st')
                      else greedy_loop env ut max_length (pf @ output_text) (total_length + L) t st'))"
          using True Inr call out len
          by (subst greedy_loop.simps)
             (simp cong: list.case_cong sum.case_cong prod.case_cong if_cong)
        show ?thesis
        proof (cases "\<exists>output_text others t.
                 batch_decode env out = output_text # others
                 \<and> stop_scan ut (total_generated @ output_text) False = Inr (t, False)")
          case False
          then have "\<exists>r. greedy_loop env ut max_length pf total_length total_generated st
                           = Some (r, st')"
            unfolding unfold by (auto split: list.splits sum.splits)
          then show ?thesis using st' one by auto
        next
          case True
          then obtain output_text others t where
            "batch_decode env out = output_text # others"
            "stop_scan ut (total_generated @ output_text) False = Inr (t, False)" by blast
          then have rec: "greedy_loop env ut max_length pf total_length total_generated st =
                 greedy_loop env ut max_length (pf @ output_text) (total_length + L) t st'"
            unfolding unfold by simp
          have "nat (max_length - (total_length + L)) < nat (max_length - total_length)"
            using L pos by linarith
          from less [OF this, of "pf @ output_text" t st'] obtain y new where
            y: "greedy_loop env ut max_length (pf @ output_text) (total_length + L) t st' = Some y"
               "calls (snd y) = calls st' @ new"
               "length new \<le> nat ((max_length - (total_length + L) + L - 1) div L)"
            by blast
          have "Suc (length new) \<le> nat ((max_length - total_length + L - 1) div L)"
            using y(3) ceil_div_step [OF L pos] by (simp add: algebra_simps)
          then show ?thesis
            using y(1,2) by (intro exI [of _ y] exI [of _ "_ # new"]) (simp add: rec st')
        qed
      qed
    qed
  qed
qed

lemma py_slice_from: "py_slice r (Some (int k)) None = drop k r"
  by (simp add: py_slice_def py_index_def Let_def min_def)

lemma toy_greedy_batch:
  "\<exists>row m. greedy_batch (toy_env il sl flag model gen) pf
             = Inr \<lparr>gen_input_tokens = [row], gen_attention_mask = [m]\<rparr>"
  by (simp add: greedy_batch_def toy_env_def char_tokenizer_def char_row_def Let_def shape1_def)

lemma toy_forward_greedy_generate:
  "forward_greedy_generate (toy_env il sl flag model gen) rng
       \<lparr>gen_input_tokens = [row], gen_attention_mask = [m]\<rparr>
     = Inr ([gen row], 2 * (2 * rng + 2) + 1)"
  by (simp add: forward_greedy_generate_def generate_with_def toy_env_def shape1_def py_slice_from)

lemma toy_per_call:
  assumes "\<forall>r. length (gen r) = n"
  shows "\<forall>pf b rng out rng'. greedy_batch (toy_env il sl flag model gen) pf = Inr b \<longrightarrow>
           forward_greedy_generate (toy_env il sl flag model gen) rng b = Inr (out, rng') \<longrightarrow>
           int (shape1 out) = int n"
proof (intro allI impI)
  fix pf b rng out rng'
  assume b: "greedy_batch (toy_env il sl flag model gen) pf = Inr b"
    and out: "forward_greedy_generate (toy_env il sl flag model gen) rng b = Inr (out, rng')"
  from toy_greedy_batch [of il sl flag model gen pf] b obtain row m where
    "b = \<lparr>gen_input_tokens = [row], gen_attention_mask = [m]\<rparr>" by auto
  with out have "out = [gen row]" by (simp add: toy_forward_greedy_generate)
  then show "int (shape1 out) = int n" using assms by (simp add: shape1_def)
qed

text \<open>
  C7. Let every call to \<open>forward_greedy_generate\<close> that returns produce \<open>L > 0\<close> tokens
  (\<open>output.shape[1] = L\<close>). Then the loop of \<open>greedy_until\<close> for one (prefix, stop set)
  pair returns, and it has made at most \<open>(max_length + L - 1) div L\<close> calls, one per
  iteration, which is the ceiling of \<open>max_length / L\<close>: \<open>total_length\<close> grows by \<open>L\<close>
  with each call and the loop is left when it reaches \<open>max_length\<close>, or before that on
  a stop string or an exception.
\<close>

theorem greedy_loop_bounded:
  assumes "0 < L"
    and "\<forall>pf b rng out rng'. greedy_batch env pf = Inr b \<longrightarrow>
           forward_greedy_generate env rng b = Inr (out, rng') \<longrightarrow> int (shape1 out) = L"
  shows "\<exists>y new. greedy_loop env ut max_length pf 0 [] st = Some y
           \<and> calls (snd y) = calls st @ new
           \<and> length new \<le> nat ((max_length + L - 1) div L)"
  using greedy_loop_terminates [OF assms, of ut max_length pf 0 "[]" st] by simp

theorem greedy_loop_bounded_witness:
  "(0::int) < 4
   \<and> (\<exists>y new. greedy_loop (toy_env 4 8 False (constant_model 97) (\<lambda>r. [97, 98, 99, 100]))
                  [''zz''] 10 ''x'' 0 [] session0 = Some y
         \<and> calls (snd y) = calls session0 @ new
         \<and> length new \<le> 3)
   \<and> map_option (\<lambda>y. (fst y, length (calls (snd y))))
        (greedy_loop (toy_env 4 8 False (constant_model 97) (\<lambda>r. [97, 98, 99, 100]))
           [''zz''] 10 ''x'' 0 [] session0)
       = Some (Inr ''abcdabcdabcd'', 3)"
proof -
  let ?env = "toy_env 4 8 False (constant_model 97) (\<lambda>r. [97, 98, 99, 100])"
  have L: "(0::int) < 4" by simp
  have per_call: "\<forall>pf b rng out rng'. greedy_batch ?env pf = Inr b \<longrightarrow>
           forward_greedy_generate ?env rng b = Inr (out, rng') \<longrightarrow> int (shape1 out) = 4"
    using toy_per_call [of "\<lambda>r. [97, 98, 99, 100]" 4 4 8 False "constant_model 97"] by simp
  have run: "map_option (\<lambda>y. (fst y, length (calls (snd y))))
        (greedy_loop ?env [''zz''] 10 ''x'' 0 [] session0) = Some (Inr ''abcdabcdabcd'', 3)"
    by code_simp
  from greedy_loop_bounded [OF L per_call, of "[''zz'']" 10 "''x''" session0] run
  show ?thesis by simp
qed

text \<open>
  C9. With an empty set of stop strings the scan of lines 389 to 393 leaves the text and
  the flag \<open>done\<close> as they are, so the loop is never left on a stop string: when every
  returning call produces \<open>L > 0\<close> tokens the loop returns, and when it returns a text,
  the text is everything that was generated, \<open>total_length\<close> has reached \<open>max_length\<close>,
  and it had not reached it before the last call.
\<close>

theorem greedy_loop_empty_stop_set:
  assumes "0 < L"
    and "\<forall>pf b rng out rng'. greedy_batch env pf = Inr b \<longrightarrow>
           forward_greedy_generate env rng b = Inr (out, rng') \<longrightarrow> int (shape1 out) = L"
  shows "stop_scan [] t d = Inr (t, d)
       \<and> (\<exists>y new. greedy_loop env [] max_length pf 0 [] st = Some y
             \<and> calls (snd y) = calls st @ new
             \<and> (\<forall>r. fst y = Inr r \<longrightarrow>
                   r = generated_text env new
                 \<and> max_length \<le> generated_length new
                 \<and> (new \<noteq> [] \<longrightarrow> generated_length (butlast new) < max_length)))"
proof -
  from greedy_loop_terminates [OF assms, of "[]" max_length pf 0 "[]" st]
  obtain y where y: "greedy_loop env [] max_length pf 0 [] st = Some y" by blast
  from greedy_loop_sound [OF y] obtain new where
    new: "calls (snd y) = calls st @ new"
    and post: "\<forall>r. fst y = Inr r \<longrightarrow>
                (new = [] \<and> r = [] \<and> max_length \<le> 0)
              \<or> (new \<noteq> [] \<and> 0 < max_length
                  \<and> length (greedy_outputs new) = length new
                  \<and> 0 + generated_length (butlast new) < max_length
                  \<and> (\<exists>d. stop_scan [] ([] @ generated_text env new) False = Inr (r, d)
                        \<and> (d \<or> max_length \<le> 0 + generated_length new)))"
    by blast
  have "r = generated_text env new \<and> max_length \<le> generated_length new
          \<and> (new \<noteq> [] \<longrightarrow> generated_length (butlast new) < max_length)"
    if "fst y = Inr r" for r
    using post that by auto
  with y new show ?thesis by auto
qed

theorem greedy_loop_empty_stop_set_witness:
  "(0::int) < 4
   \<and> map_option (\<lambda>y. (fst y, generated_length (calls (snd y)),
                       generated_length (butlast (calls (snd y)))))
        (greedy_loop (toy_env 4 8 False (constant_model 97) (\<lambda>r. [97, 98, 99, 100]))
           [] 10 ''x'' 0 [] session0)
       = Some (Inr ''abcdabcdabcd'', 12, 8)
   \<and> (\<exists>y new. greedy_loop (toy_env 4 8 False (constant_model 97) (\<lambda>r. [97, 98, 99, 100]))
                  [] 10 ''x'' 0 [] session0 = Some y
         \<and> calls (snd y) = calls session0 @ new
         \<and> (\<forall>r. fst y = Inr r \<longrightarrow>
               r = generated_text (toy_env 4 8 False (constant_model 97) (\<lambda>r. [97, 98, 99, 100])) new
             \<and> 10 \<le> generated_length new
             \<and> (new \<noteq> [] \<longrightarrow> generated_length (butlast new) < 10)))"
proof -
  let ?env = "toy_env 4 8 False (constant_model 97) (\<lambda>r. [97, 98, 99, 100])"
  have L: "(0::int) < 4" by simp
  have per_call: "\<forall>pf b rng out rng'. greedy_batch ?env pf = Inr b \<longrightarrow>
           forward_greedy_generate ?env rng b = Inr (out, rng') \<longrightarrow> int (shape1 out) = 4"
    using toy_per_call [of "\<lambda>r. [97, 98, 99, 100]" 4 4 8 False "constant_model 97"] by simp
  have run: "map_option (\<lambda>y. (fst y, generated_length (calls (snd y)),
                       generated_length (butlast (calls (snd y)))))
        (greedy_loop ?env [] 10 ''x'' 0 [] session0) = Some (Inr ''abcdabcdabcd'', 12, 8)"
    by code_simp
  from greedy_loop_empty_stop_set [OF L per_call, of "[]" False 10 "''x''" session0, THEN conjunct2]
    run L
  show ?thesis by blast
qed

end
